theory Spec2Isabelle
  imports Main "HOL-Library.Word"
begin

section \<open>Data model\<close>

text \<open>
  The application of \<^verbatim>\<open>src/App.tsx\<close>: two file inputs, a button and a result panel,
  held together by seven React state variables. JavaScript strings are modelled as
  \<^typ>\<open>string\<close>, whose characters are bytes: the strings the component handles (data
  URLs, media types, its two messages) are ASCII. \<^verbatim>\<open>null\<close> and \<^verbatim>\<open>undefined\<close> are
  \<^term>\<open>None\<close>.
\<close>

text \<open>
  A browser \<^verbatim>\<open>File\<close> is its name, its media type and its bytes. The media type of a
  chosen file is the one the browser determined for it, a type name and a subtype name
  as in \<^verbatim>\<open>image/png\<close>, or none when the browser could determine none (\<^verbatim>\<open>File.type\<close> is
  then the empty string). The names are made of lower-case letters, digits and the
  characters \<^verbatim>\<open>!#$&-^_.+\<close>.
\<close>

definition name_char :: "char \<Rightarrow> bool" where
  "name_char c \<longleftrightarrow> c \<in> set ''abcdefghijklmnopqrstuvwxyz0123456789!#$&-^_.+''"

definition is_name :: "string \<Rightarrow> bool" where
  "is_name s \<longleftrightarrow> s \<noteq> [] \<and> (\<forall>c\<in>set s. name_char c)"

typedef media_type = "{(t, s). is_name t \<and> is_name s}"
  morphisms names Media_type
  by (rule exI[of _ "(''a'', ''a'')"]) (simp add: is_name_def name_char_def)

setup_lifting type_definition_media_type

text \<open>The media type as a string, \<^verbatim>\<open>type/subtype\<close>.\<close>

lift_definition essence :: "media_type \<Rightarrow> string" is "\<lambda>(t, s). t @ ''/'' @ s" .

record File =
  file_name :: string
  file_type :: "media_type option"
  file_bytes :: "8 word list"

text \<open>\<^verbatim>\<open>ImageData\<close> of \<^verbatim>\<open>./types\<close>, as \<^verbatim>\<open>resolve({ mimeType, data })\<close> builds it.\<close>

record ImageData =
  mimeType :: string
  data :: string

text \<open>
  What a promise is rejected with: \<^verbatim>\<open>new Error(msg)\<close>, the event handed to
  \<^verbatim>\<open>reader.onerror\<close>, or whatever the generation service throws.
\<close>

datatype reason = Error string | ErrorEvent | ServiceFailure

text \<open>
  The fate of a promise that is awaited. A promise need not settle at all (no timeout is
  set anywhere in the source), and then the code after the \<^verbatim>\<open>await\<close> never runs.
\<close>

datatype 'a promise = Resolved 'a | Rejected reason | Never_settles

text \<open>
  What the \<^verbatim>\<open>FileReader\<close> does after \<^verbatim>\<open>readAsDataURL(file)\<close>: it fires \<^verbatim>\<open>onload\<close> with
  \<^verbatim>\<open>reader.result\<close> a string, fires \<^verbatim>\<open>onerror\<close>, or fires neither.
\<close>

datatype reader_event = OnLoad string | OnError | NoEvent

record app_state =
  childPhoto :: "File option"
  adultPhoto :: "File option"
  childPhotoPreview :: "string option"
  adultPhotoPreview :: "string option"
  generatedImage :: "string option"
  isLoading :: bool
  error :: "string option"

text \<open>The initial values of the seven \<^verbatim>\<open>useState\<close> calls.\<close>

definition initial_state :: app_state where
  "initial_state =
     \<lparr>childPhoto = None, adultPhoto = None, childPhotoPreview = None,
      adultPhotoPreview = None, generatedImage = None, isLoading = False, error = None\<rparr>"

text \<open>
  The collaborators the component calls and does not define: \<^verbatim>\<open>URL.createObjectURL\<close>,
  the browser's file reader, and \<^verbatim>\<open>generateHuggingImage\<close> of
  \<^verbatim>\<open>./services/geminiService\<close>. They are parameters of the model.
\<close>

record env =
  createObjectURL :: "File \<Rightarrow> string"
  readAsDataURL :: "File \<Rightarrow> reader_event"
  generateHuggingImage :: "ImageData \<Rightarrow> ImageData \<Rightarrow> string promise"

text \<open>JavaScript truthiness of a \<^verbatim>\<open>string | null | undefined\<close>: the empty string is falsy.\<close>

fun truthy :: "string option \<Rightarrow> bool" where
  "truthy None = False"
| "truthy (Some s) = (s \<noteq> [])"

section \<open>The encoder \<^verbatim>\<open>fileToBase64\<close>\<close>

text \<open>
  \<^verbatim>\<open>result.split(',')\<close>: every occurrence of the separator ends a piece, so a string
  with \<open>n\<close> separators has \<open>n + 1\<close> pieces and the empty string has one piece, itself.
\<close>

fun split_from :: "char \<Rightarrow> string \<Rightarrow> string \<Rightarrow> string list" where
  "split_from sep cur [] = [cur]"
| "split_from sep cur (c # cs) =
     (if c = sep then cur # split_from sep [] cs else split_from sep (cur @ [c]) cs)"

definition split_on :: "char \<Rightarrow> string \<Rightarrow> string list" where
  "split_on sep s = split_from sep [] s"

text \<open>Array destructuring \<^verbatim>\<open>[header, data] = ...\<close>: a missing element is \<^verbatim>\<open>undefined\<close>.\<close>

definition item :: "'a list \<Rightarrow> nat \<Rightarrow> 'a option" where
  "item xs i = (if i < length xs then Some (xs ! i) else None)"

text \<open>
  \<^verbatim>\<open>header.match(/:(.*?);/)\<close>. The dot matches any character but a line terminator (of
  which a byte string has two, line feed and carriage return); the lazy star takes as
  few characters as possible, so the group ends at the first semicolon.
  \<open>lazy_until_semicolon\<close> is the attempt right after a colon: it fails when a line
  terminator or the end of the string comes before a semicolon. \<open>match_mime\<close> tries the
  start positions from the left and returns group 1 of the first match, \<^term>\<open>None\<close> for
  \<^verbatim>\<open>null\<close>.
\<close>

definition line_terminator :: "char \<Rightarrow> bool" where
  "line_terminator c = (c = CHR 0x0A \<or> c = CHR 0x0D)"

fun lazy_until_semicolon :: "string \<Rightarrow> string option" where
  "lazy_until_semicolon [] = None"
| "lazy_until_semicolon (c # cs) =
     (if c = CHR '';'' then Some []
      else if line_terminator c then None
      else map_option ((#) c) (lazy_until_semicolon cs))"

fun match_mime :: "string \<Rightarrow> string option" where
  "match_mime [] = None"
| "match_mime (c # cs) =
     (if c = CHR '':'' then
        (case lazy_until_semicolon cs of Some g \<Rightarrow> Some g | None \<Rightarrow> match_mime cs)
      else match_mime cs)"

text \<open>The body of \<^verbatim>\<open>reader.onload\<close>, from \<^verbatim>\<open>reader.result\<close> to the settled promise.\<close>

definition onload :: "string \<Rightarrow> ImageData promise" where
  "onload result =
     (case (item (split_on CHR '','' result) 0, item (split_on CHR '','' result) 1) of
        (Some header, Some dat) \<Rightarrow>
          if header = [] \<or> dat = [] then Rejected (Error ''Invalid file format'')
          else (case match_mime header of
                  None \<Rightarrow> Rejected (Error ''Could not determine MIME type'')
                | Some g \<Rightarrow>
                    if g = [] then Rejected (Error ''Could not determine MIME type'')
                    else Resolved \<lparr>mimeType = g, data = dat\<rparr>)
      | _ \<Rightarrow> Rejected (Error ''Invalid file format''))"

definition fileToBase64 :: "env \<Rightarrow> File \<Rightarrow> ImageData promise" where
  "fileToBase64 e file =
     (case readAsDataURL e file of
        OnLoad result \<Rightarrow> onload result
      | OnError \<Rightarrow> Rejected ErrorEvent
      | NoEvent \<Rightarrow> Never_settles)"

subsection \<open>What the regular expression finds\<close>

text \<open>
  \<open>starts_match t\<close>: a match can start at a colon followed by \<open>t\<close>, which is the case
  when a semicolon is reached before any line terminator.
  \<open>first_mime_pattern header m\<close>: \<open>m\<close> is the text between a colon and the next
  semicolon, free of line terminators, and no colon further left starts a match.
\<close>

definition starts_match :: "string \<Rightarrow> bool" where
  "starts_match t \<longleftrightarrow>
     (\<exists>g rest. t = g @ CHR '';'' # rest \<and> (\<forall>c\<in>set g. \<not> line_terminator c))"

definition first_mime_pattern :: "string \<Rightarrow> string \<Rightarrow> bool" where
  "first_mime_pattern header m \<longleftrightarrow>
     (\<exists>pre post. header = pre @ CHR '':'' # m @ CHR '';'' # post
        \<and> CHR '';'' \<notin> set m \<and> (\<forall>c\<in>set m. \<not> line_terminator c)
        \<and> (\<forall>p1 p2. pre = p1 @ CHR '':'' # p2 \<longrightarrow>
               \<not> starts_match (p2 @ CHR '':'' # m @ CHR '';'' # post)))"

subsection \<open>The encoder's contract in the specification's terms\<close>

text \<open>
  The specification splits the string of the file read at its first comma: the header
  segment is what stands before the first comma, the data segment (the payload) is
  everything that stands after it.
\<close>

definition header_segment :: "string \<Rightarrow> string" where
  "header_segment result = takeWhile (\<lambda>c. c \<noteq> CHR '','') result"

definition data_segment :: "string \<Rightarrow> string" where
  "data_segment result = tl (dropWhile (\<lambda>c. c \<noteq> CHR '','') result)"

text \<open>
  The specification's two reasons for a failed encoding. The first: the string has no
  comma-separated header and data, that is, no comma at all, or nothing before the first
  comma, or nothing after it. The second: the header contains no \<^verbatim>\<open>:<mime>;\<close> pattern
  with a non-empty \<^verbatim>\<open><mime>\<close>, a pattern being a colon, a text without semicolon, and a
  semicolon, anywhere in the header.
\<close>

definition no_header_data_split :: "string \<Rightarrow> bool" where
  "no_header_data_split result \<longleftrightarrow>
     CHR '','' \<notin> set result \<or> header_segment result = [] \<or> data_segment result = []"

definition mime_pattern :: "string \<Rightarrow> string \<Rightarrow> bool" where
  "mime_pattern header m \<longleftrightarrow>
     (\<exists>pre post. header = pre @ CHR '':'' # m @ CHR '';'' # post \<and> CHR '';'' \<notin> set m)"

definition has_mime_pattern :: "string \<Rightarrow> bool" where
  "has_mime_pattern header \<longleftrightarrow> (\<exists>m. m \<noteq> [] \<and> mime_pattern header m)"

text \<open>
  The data-URI-style strings of the specification, well formed or not. Such a string is
  \<^verbatim>\<open>data:<type>;base64,<payload>\<close> or a damaged form of it: its header is one line with
  at most one colon, the one that ends \<^verbatim>\<open>data\<close>, and its payload, being base64, has no
  comma. Every string the file read of section \<open>The file read\<close> produces is of this
  kind, and so are the empty string, a string without comma, and a string whose header
  or payload is missing. A string with a comma inside its payload or with a second colon
  in its header is not of this kind: no file read produces one.
\<close>

definition data_uri_style :: "string \<Rightarrow> bool" where
  "data_uri_style result \<longleftrightarrow>
     count_list (header_segment result) CHR '':'' \<le> 1 \<and>
     (\<forall>c\<in>set (header_segment result). \<not> line_terminator c) \<and>
     CHR '','' \<notin> set (data_segment result)"

section \<open>The component \<^verbatim>\<open>App\<close>\<close>

subsection \<open>File selection\<close>

definition setChildPhoto :: "File option \<Rightarrow> app_state \<Rightarrow> app_state" where
  "setChildPhoto v s = s\<lparr>childPhoto := v\<rparr>"

definition setAdultPhoto :: "File option \<Rightarrow> app_state \<Rightarrow> app_state" where
  "setAdultPhoto v s = s\<lparr>adultPhoto := v\<rparr>"

definition setChildPhotoPreview :: "string option \<Rightarrow> app_state \<Rightarrow> app_state" where
  "setChildPhotoPreview v s = s\<lparr>childPhotoPreview := v\<rparr>"

definition setAdultPhotoPreview :: "string option \<Rightarrow> app_state \<Rightarrow> app_state" where
  "setAdultPhotoPreview v s = s\<lparr>adultPhotoPreview := v\<rparr>"

definition handleFileChange ::
  "env \<Rightarrow> (File option \<Rightarrow> app_state \<Rightarrow> app_state) \<Rightarrow>
   (string option \<Rightarrow> app_state \<Rightarrow> app_state) \<Rightarrow> File \<Rightarrow> app_state \<Rightarrow> app_state" where
  "handleFileChange e setter previewSetter file s =
     previewSetter (Some (createObjectURL e file)) (setter (Some file) s)"

text \<open>
  \<^verbatim>\<open>handleInputChange\<close> of \<^verbatim>\<open>ImageUploader\<close>: \<^verbatim>\<open>event.target.files\<close> is \<^verbatim>\<open>null\<close> or a list,
  and the callback runs only when the list has a first file.
\<close>

definition handleInputChange ::
  "(File \<Rightarrow> app_state \<Rightarrow> app_state) \<Rightarrow> File list option \<Rightarrow> app_state \<Rightarrow> app_state" where
  "handleInputChange onFileChange files s =
     (case files of Some (f # _) \<Rightarrow> onFileChange f s | _ \<Rightarrow> s)"

subsection \<open>The generation trigger\<close>

text \<open>
  \<^verbatim>\<open>handleGenerateClick\<close> is asynchronous: it is modelled by the sequence of effects it
  performs, in order, given what its collaborators answer. A call of
  \<^verbatim>\<open>fileToBase64\<close> or \<^verbatim>\<open>generateHuggingImage\<close> is awaited, so the handler is suspended
  right after each call action; when the awaited promise never settles, the sequence
  ends there. The photos are those of the state in which the handler is called
  (\<^verbatim>\<open>useCallback\<close> with both photos as dependencies).
\<close>

datatype action =
    SetError "string option"
  | SetIsLoading bool
  | SetGeneratedImage "string option"
  | CallFileToBase64 File
  | CallGenerateHuggingImage ImageData ImageData
  | ConsoleError reason

definition validation_message :: string where
  "validation_message = ''Please upload both photos before generating.''"

definition failure_message :: string where
  "failure_message = ''Failed to generate the image. Please try again.''"

text \<open>The \<^verbatim>\<open>catch\<close> block followed by the \<^verbatim>\<open>finally\<close> block.\<close>

definition catch_finally :: "reason \<Rightarrow> action list" where
  "catch_finally r = [ConsoleError r, SetError (Some failure_message), SetIsLoading False]"

definition handleGenerateClick :: "env \<Rightarrow> app_state \<Rightarrow> action list" where
  "handleGenerateClick e s =
     (case (childPhoto s, adultPhoto s) of
        (Some child, Some adult) \<Rightarrow>
          [SetIsLoading True, SetError None, SetGeneratedImage None, CallFileToBase64 child] @
          (case fileToBase64 e child of
             Never_settles \<Rightarrow> []
           | Rejected r \<Rightarrow> catch_finally r
           | Resolved childPhotoData \<Rightarrow>
               CallFileToBase64 adult #
               (case fileToBase64 e adult of
                  Never_settles \<Rightarrow> []
                | Rejected r \<Rightarrow> catch_finally r
                | Resolved adultPhotoData \<Rightarrow>
                    CallGenerateHuggingImage childPhotoData adultPhotoData #
                    (case generateHuggingImage e childPhotoData adultPhotoData of
                       Never_settles \<Rightarrow> []
                     | Rejected r \<Rightarrow> catch_finally r
                     | Resolved imageUrl \<Rightarrow>
                         [SetGeneratedImage (Some imageUrl), SetIsLoading False])))
      | _ \<Rightarrow> [SetError (Some validation_message)])"

text \<open>
  An encoding of the attempt fails: the child's is rejected, or the child's is resolved
  and the adult's is rejected (the adult's photo is only read after the child's).
\<close>

definition an_encoding_fails :: "env \<Rightarrow> File \<Rightarrow> File \<Rightarrow> bool" where
  "an_encoding_fails e child adult \<longleftrightarrow>
     (\<exists>r. fileToBase64 e child = Rejected r) \<or>
     ((\<exists>cd. fileToBase64 e child = Resolved cd) \<and> (\<exists>r. fileToBase64 e adult = Rejected r))"

fun perform :: "action \<Rightarrow> app_state \<Rightarrow> app_state" where
  "perform (SetError v) s = s\<lparr>error := v\<rparr>"
| "perform (SetIsLoading b) s = s\<lparr>isLoading := b\<rparr>"
| "perform (SetGeneratedImage v) s = s\<lparr>generatedImage := v\<rparr>"
| "perform (CallFileToBase64 f) s = s"
| "perform (CallGenerateHuggingImage c a) s = s"
| "perform (ConsoleError r) s = s"

text \<open>The state after a whole sequence of effects.\<close>

definition run :: "action list \<Rightarrow> app_state \<Rightarrow> app_state" where
  "run as s = fold perform as s"

fun is_call :: "action \<Rightarrow> bool" where
  "is_call (CallFileToBase64 f) = True"
| "is_call (CallGenerateHuggingImage c a) = True"
| "is_call _ = False"

subsection \<open>What is rendered\<close>

text \<open>The four conditional blocks of the result panel, and the button's \<^verbatim>\<open>disabled\<close>.\<close>

datatype view = LoadingSpinner | ErrorText string | GeneratedImage string | Placeholder

definition render :: "app_state \<Rightarrow> view list" where
  "render s =
     (if isLoading s then [LoadingSpinner] else []) @
     (case error s of Some m \<Rightarrow> if m \<noteq> [] then [ErrorText m] else [] | None \<Rightarrow> []) @
     (if \<not> isLoading s \<and> \<not> truthy (error s) then
        (case generatedImage s of
           Some u \<Rightarrow> if u \<noteq> [] then [GeneratedImage u] else []
         | None \<Rightarrow> [])
      else []) @
     (if \<not> isLoading s \<and> \<not> truthy (error s) \<and> \<not> truthy (generatedImage s)
      then [Placeholder] else [])"

definition button_disabled :: "app_state \<Rightarrow> bool" where
  "button_disabled s \<longleftrightarrow> childPhoto s = None \<or> adultPhoto s = None \<or> isLoading s"

subsection \<open>The event loop\<close>

text \<open>
  A task of the event loop runs to completion: a handler runs until it returns or
  reaches an \<^verbatim>\<open>await\<close>, and what is left of it waits in \<open>suspended\<close> until its promise
  settles. The state setters called within one task take effect together, so the states
  of the system are those between tasks; nothing is rendered and no other handler runs
  in the middle of a task. \<open>until_await\<close> runs a sequence of effects up to and including
  its first call.
\<close>

fun until_await :: "action list \<Rightarrow> app_state \<Rightarrow> app_state \<times> action list" where
  "until_await [] s = (s, [])"
| "until_await (a # as) s = (if is_call a then (s, as) else until_await as (perform a s))"

record system =
  ui :: app_state
  suspended :: "action list list"

definition initial_system :: system where
  "initial_system = \<lparr>ui = initial_state, suspended = []\<rparr>"

text \<open>A handler with nothing left to do is not kept.\<close>

definition park :: "action list \<Rightarrow> action list list" where
  "park k = (if k = [] then [] else [k])"

text \<open>
  The events: a change of either file input, a click on the button (which does nothing
  while the button is disabled), and the settling of the promise that the \<open>i\<close>-th
  suspended handler awaits.
\<close>

datatype event =
    ChildInputChange "File list option"
  | AdultInputChange "File list option"
  | Click
  | Settle nat

fun step :: "env \<Rightarrow> event \<Rightarrow> system \<Rightarrow> system" where
  "step e (ChildInputChange files) sys =
     sys\<lparr>ui := handleInputChange
                  (handleFileChange e setChildPhoto setChildPhotoPreview) files (ui sys)\<rparr>"
| "step e (AdultInputChange files) sys =
     sys\<lparr>ui := handleInputChange
                  (handleFileChange e setAdultPhoto setAdultPhotoPreview) files (ui sys)\<rparr>"
| "step e Click sys =
     (if button_disabled (ui sys) then sys
      else (case until_await (handleGenerateClick e (ui sys)) (ui sys) of
              (s', k) \<Rightarrow> \<lparr>ui = s', suspended = suspended sys @ park k\<rparr>))"
| "step e (Settle i) sys =
     (if i < length (suspended sys) then
        (case until_await (suspended sys ! i) (ui sys) of
           (s', k) \<Rightarrow>
             \<lparr>ui = s',
              suspended = take i (suspended sys) @ park k @ drop (Suc i) (suspended sys)\<rparr>)
      else sys)"

text \<open>Each event may meet another environment: what the collaborators answer can change.\<close>

fun steps :: "(env \<times> event) list \<Rightarrow> system \<Rightarrow> system" where
  "steps [] sys = sys"
| "steps ((e, ev) # evs) sys = steps evs (step e ev sys)"

inductive reachable :: "system \<Rightarrow> bool" where
  reachable_init: "reachable initial_system"
| reachable_step: "reachable sys \<Longrightarrow> reachable (step e ev sys)"

section \<open>The file read\<close>

text \<open>
  The bytes of a file become a string in the browser's \<^verbatim>\<open>FileReader.readAsDataURL\<close>,
  which \<^verbatim>\<open>fileToBase64\<close> calls and the repository does not define. The specification
  says that the encoder "reads the file's entire byte content, produces a
  data-URI-style string", that the payload is "a base64 encoding of the raw bytes" and
  that the media type is "extracted from the source".
\<close>

text \<open>
  Modelled from the spec: the base64 encoding of the raw bytes, which the browser
  computes. Three bytes become four characters of the alphabet; one or two bytes left
  over become two or three characters, padded with \<^verbatim>\<open>=\<close> to four.
\<close>

definition base64_alphabet :: string where
  "base64_alphabet = ''ABCDEFGHIJKLMNOPQRSTUVWXYZabcdefghijklmnopqrstuvwxyz0123456789+/''"

definition base64_char :: "nat \<Rightarrow> char" where
  "base64_char n = base64_alphabet ! (n mod 64)"

definition base64_index :: "char \<Rightarrow> nat" where
  "base64_index c = length (takeWhile (\<lambda>x. x \<noteq> c) base64_alphabet)"

fun base64 :: "8 word list \<Rightarrow> string" where
  "base64 (a # b # c # rest) =
     [base64_char (unat a div 4),
      base64_char (unat a mod 4 * 16 + unat b div 16),
      base64_char (unat b mod 16 * 4 + unat c div 64),
      base64_char (unat c mod 64)] @ base64 rest"
| "base64 [a, b] =
     [base64_char (unat a div 4),
      base64_char (unat a mod 4 * 16 + unat b div 16),
      base64_char (unat b mod 16 * 4),
      CHR ''='']"
| "base64 [a] =
     [base64_char (unat a div 4), base64_char (unat a mod 4 * 16), CHR ''='', CHR ''='']"
| "base64 [] = []"

text \<open>
  Modelled from the spec: the decoding of a payload ("when decoded, reproduces the
  original bytes"), group by group of four characters, ending at a padded group.
\<close>

fun unbase64 :: "string \<Rightarrow> 8 word list" where
  "unbase64 (p # q # r # s # rest) =
     (if r = CHR ''='' then
        [of_nat (base64_index p * 4 + base64_index q div 16)]
      else if s = CHR ''='' then
        [of_nat (base64_index p * 4 + base64_index q div 16),
         of_nat (base64_index q mod 16 * 16 + base64_index r div 4)]
      else
        [of_nat (base64_index p * 4 + base64_index q div 16),
         of_nat (base64_index q mod 16 * 16 + base64_index r div 4),
         of_nat (base64_index r mod 4 * 64 + base64_index s)] @ unbase64 rest)"
| "unbase64 _ = []"

text \<open>
  Modelled from the spec: the data-URI-style string of a file,
  \<^verbatim>\<open>data:<type>;base64,<payload>\<close>, and the reader that always loads it. \<^verbatim>\<open><type>\<close> is
  the media type of the file; for a file without one the browser's reader writes
  \<^verbatim>\<open>application/octet-stream\<close>.
\<close>

definition content_type :: "File \<Rightarrow> string" where
  "content_type f =
     (case file_type f of None \<Rightarrow> ''application/octet-stream'' | Some m \<Rightarrow> essence m)"

definition data_url :: "File \<Rightarrow> string" where
  "data_url f = ''data:'' @ content_type f @ '';base64,'' @ base64 (file_bytes f)"

definition browser_reader :: "File \<Rightarrow> reader_event" where
  "browser_reader f = OnLoad (data_url f)"

section \<open>The invariant of the event loop\<close>

text \<open>
  What can be left of \<^verbatim>\<open>handleGenerateClick\<close> once it has reached its first \<^verbatim>\<open>await\<close>:
  nothing, the \<^verbatim>\<open>catch\<close> and \<^verbatim>\<open>finally\<close> blocks, the two effects of success, or a call
  followed by such a rest.
\<close>

inductive continuation :: "action list \<Rightarrow> bool" where
  finished: "continuation []"
| failing: "continuation (catch_finally r)"
| succeeding: "continuation [SetGeneratedImage (Some u), SetIsLoading False]"
| awaiting: "is_call a \<Longrightarrow> continuation k \<Longrightarrow> continuation (a # k)"

text \<open>
  While loading there is neither an error nor a result; an error is the failure message
  and excludes a result.
\<close>

definition lifecycle_ok :: "app_state \<Rightarrow> bool" where
  "lifecycle_ok s \<longleftrightarrow>
     (isLoading s \<longrightarrow> error s = None \<and> generatedImage s = None) \<and>
     (error s \<noteq> None \<longrightarrow> error s = Some failure_message \<and> generatedImage s = None)"

text \<open>At most one handler is suspended, and only while the loading flag is set.\<close>

definition invariant :: "system \<Rightarrow> bool" where
  "invariant sys \<longleftrightarrow>
     lifecycle_ok (ui sys) \<and>
     (suspended sys = [] \<or>
      (\<exists>k. suspended sys = [k] \<and> k \<noteq> [] \<and> continuation k \<and> isLoading (ui sys)))"

section \<open>Example files, collaborators and runs\<close>

text \<open>
  The scenario of the specification: a ten-byte PNG blob as the child's photo, a ten-byte
  JPEG blob as the adult's, and a generation service that answers with the reference
  \<^verbatim>\<open>data:image/png;base64,AAA=\<close>. Beside them an empty PNG file and a one-byte file
  for which the browser found no media type.
\<close>

lift_definition image_png :: media_type is "(''image'', ''png'')"
  by (simp add: is_name_def name_char_def)

lift_definition image_jpeg :: media_type is "(''image'', ''jpeg'')"
  by (simp add: is_name_def name_char_def)

definition child_png :: File where
  "child_png =
     \<lparr>file_name = ''child.png'', file_type = Some image_png,
      file_bytes = [0x89, 0x50, 0x4E, 0x47, 0x0D, 0x0A, 0x1A, 0x0A, 0x00, 0x00]\<rparr>"

definition adult_jpeg :: File where
  "adult_jpeg =
     \<lparr>file_name = ''adult.jpg'', file_type = Some image_jpeg,
      file_bytes = [0xFF, 0xD8, 0xFF, 0xE0, 0x00, 0x10, 0x4A, 0x46, 0x49, 0x46]\<rparr>"

definition empty_png :: File where
  "empty_png = \<lparr>file_name = ''empty.png'', file_type = Some image_png, file_bytes = []\<rparr>"

definition untyped_blob :: File where
  "untyped_blob = \<lparr>file_name = ''blob'', file_type = None, file_bytes = [0x41]\<rparr>"

definition stub_reference :: string where
  "stub_reference = ''data:image/png;base64,AAA=''"

definition stub_env ::
  "(File \<Rightarrow> reader_event) \<Rightarrow> (ImageData \<Rightarrow> ImageData \<Rightarrow> string promise) \<Rightarrow> env" where
  "stub_env reader client =
     \<lparr>createObjectURL = (\<lambda>f. ''blob:'' @ file_name f),
      readAsDataURL = reader, generateHuggingImage = client\<rparr>"

definition client_hangs :: "ImageData \<Rightarrow> ImageData \<Rightarrow> string promise" where
  "client_hangs c a = Never_settles"

definition client_resolves :: "string \<Rightarrow> ImageData \<Rightarrow> ImageData \<Rightarrow> string promise" where
  "client_resolves v c a = Resolved v"

definition client_rejects :: "ImageData \<Rightarrow> ImageData \<Rightarrow> string promise" where
  "client_rejects c a = Rejected ServiceFailure"

text \<open>A reader that fails on the adult's photo.\<close>

definition adult_unreadable :: "File \<Rightarrow> reader_event" where
  "adult_unreadable f = (if f = adult_jpeg then OnError else browser_reader f)"

text \<open>The state after the two photos were chosen, and after an attempt from there.\<close>

definition both_selected :: "env \<Rightarrow> app_state" where
  "both_selected e =
     handleInputChange (handleFileChange e setAdultPhoto setAdultPhotoPreview) (Some [adult_jpeg])
       (handleInputChange (handleFileChange e setChildPhoto setChildPhotoPreview) (Some [child_png])
          initial_state)"

definition succeeded_state :: app_state where
  "succeeded_state =
     run (handleGenerateClick (stub_env browser_reader (client_resolves stub_reference))
            (both_selected (stub_env browser_reader (client_resolves stub_reference))))
         (both_selected (stub_env browser_reader (client_resolves stub_reference)))"

definition failed_state :: app_state where
  "failed_state =
     run (handleGenerateClick (stub_env browser_reader client_rejects)
            (both_selected (stub_env browser_reader client_rejects)))
         (both_selected (stub_env browser_reader client_rejects))"

definition select_both :: "(env \<times> event) list" where
  "select_both =
     [(stub_env browser_reader (client_resolves stub_reference), ChildInputChange (Some [child_png])),
      (stub_env browser_reader (client_resolves stub_reference), AdultInputChange (Some [adult_jpeg]))]"

definition select_both_and_click :: "(env \<times> event) list" where
  "select_both_and_click =
     [(stub_env browser_reader (client_resolves stub_reference), ChildInputChange (Some [child_png])),
      (stub_env browser_reader (client_resolves stub_reference), AdultInputChange (Some [adult_jpeg])),
      (stub_env browser_reader (client_resolves stub_reference), Click)]"

definition settle_three :: "(env \<times> event) list" where
  "settle_three =
     [(stub_env browser_reader (client_resolves stub_reference), Settle 0),
      (stub_env browser_reader (client_resolves stub_reference), Settle 0),
      (stub_env browser_reader (client_resolves stub_reference), Settle 0)]"

section \<open>Properties of the encoder\<close>

subsection \<open>The regular expression finds the first media type pattern\<close>

lemma lazy_Some_iff:
  "lazy_until_semicolon t = Some g \<longleftrightarrow>
     (\<exists>rest. t = g @ CHR '';'' # rest \<and> CHR '';'' \<notin> set g \<and> (\<forall>c\<in>set g. \<not> line_terminator c))"
proof (induction t arbitrary: g)
  case Nil
  then show ?case by simp
next
  case (Cons c cs)
  show ?case
  proof (cases "c = CHR '';''")
    case True
    then show ?thesis by (cases g) auto
  next
    case semi: False
    show ?thesis
    proof (cases "line_terminator c")
      case True
      then show ?thesis using semi by (cases g) auto
    next
      case False
      then show ?thesis using semi Cons.IH by (cases g) auto
    qed
  qed
qed

lemma lazy_None_iff: "lazy_until_semicolon t = None \<longleftrightarrow> \<not> starts_match t"
proof -
  have "starts_match t \<Longrightarrow> lazy_until_semicolon t \<noteq> None"
  proof -
    assume "starts_match t"
    then obtain g rest where t: "t = g @ CHR '';'' # rest"
      and g: "\<forall>c\<in>set g. \<not> line_terminator c"
      by (auto simp: starts_match_def)
    from g show ?thesis unfolding t by (induction g) auto
  qed
  moreover have "lazy_until_semicolon t \<noteq> None \<Longrightarrow> starts_match t"
    by (auto simp: lazy_Some_iff starts_match_def)
  ultimately show ?thesis by blast
qed

lemma match_mime_sound: "match_mime h = Some m \<Longrightarrow> first_mime_pattern h m"
proof (induction h)
  case Nil
  then show ?case by simp
next
  case (Cons c cs)
  show ?case
  proof (cases "c = CHR '':'' \<and> lazy_until_semicolon cs \<noteq> None")
    case True
    then have "lazy_until_semicolon cs = Some m" using Cons.prems by auto
    then obtain rest where "cs = m @ CHR '';'' # rest" "CHR '';'' \<notin> set m"
      "\<forall>c\<in>set m. \<not> line_terminator c"
      by (auto simp: lazy_Some_iff)
    then show ?thesis using True
      unfolding first_mime_pattern_def
      by (intro exI[of _ "[]"] exI[of _ rest]) simp
  next
    case False
    then have m: "match_mime cs = Some m" using Cons.prems by (auto split: if_splits)
    from Cons.IH[OF m] obtain pre post where
      cs: "cs = pre @ CHR '':'' # m @ CHR '';'' # post" and
      m1: "CHR '';'' \<notin> set m" and m2: "\<forall>c\<in>set m. \<not> line_terminator c" and
      first: "\<forall>p1 p2. pre = p1 @ CHR '':'' # p2 \<longrightarrow>
               \<not> starts_match (p2 @ CHR '':'' # m @ CHR '';'' # post)"
      unfolding first_mime_pattern_def by blast
    have "\<not> starts_match (p2 @ CHR '':'' # m @ CHR '';'' # post)"
      if "c # pre = p1 @ CHR '':'' # p2" for p1 p2
    proof (cases p1)
      case Nil
      with that have "c = CHR '':''" "p2 = pre" by auto
      with False have "lazy_until_semicolon cs = None" by simp
      then show ?thesis using cs \<open>p2 = pre\<close> by (simp add: lazy_None_iff)
    next
      case (Cons a p1')
      with that have "pre = p1' @ CHR '':'' # p2" by simp
      then show ?thesis using first by blast
    qed
    then show ?thesis
      unfolding first_mime_pattern_def using cs m1 m2
      by (intro exI[of _ "c # pre"] exI[of _ post]) simp
  qed
qed

lemma match_mime_complete: "first_mime_pattern h m \<Longrightarrow> match_mime h = Some m"
proof -
  assume "first_mime_pattern h m"
  then obtain pre post where
      h: "h = pre @ CHR '':'' # m @ CHR '';'' # post" and
      m1: "CHR '';'' \<notin> set m" and m2: "\<forall>c\<in>set m. \<not> line_terminator c" and
      first: "\<forall>p1 p2. pre = p1 @ CHR '':'' # p2 \<longrightarrow>
               \<not> starts_match (p2 @ CHR '':'' # m @ CHR '';'' # post)"
    unfolding first_mime_pattern_def by blast
  from first show ?thesis unfolding h
  proof (induction pre)
    case Nil
    have "lazy_until_semicolon (m @ CHR '';'' # post) = Some m"
      using m1 m2 by (simp add: lazy_Some_iff)
    then show ?case by simp
  next
    case (Cons c pre)
    have ih: "match_mime (pre @ CHR '':'' # m @ CHR '';'' # post) = Some m"
      using Cons.prems by (intro Cons.IH) (metis append_Cons)
    show ?case
    proof (cases "c = CHR '':''")
      case True
      with Cons.prems have "\<not> starts_match (pre @ CHR '':'' # m @ CHR '';'' # post)"
        by (metis append_Nil)
      then have "lazy_until_semicolon (pre @ CHR '':'' # m @ CHR '';'' # post) = None"
        by (simp add: lazy_None_iff)
      then show ?thesis using True ih by simp
    next
      case False
      then show ?thesis using ih by simp
    qed
  qed
qed

lemma match_mime_iff: "match_mime h = Some m \<longleftrightarrow> first_mime_pattern h m"
  using match_mime_sound match_mime_complete by blast

text \<open>
  In a header without line terminators the pattern is what stands between the first
  colon and the next semicolon.
\<close>

lemma first_mime_pattern_single_line:
  assumes "\<forall>c\<in>set h. \<not> line_terminator c"
  shows "first_mime_pattern h m \<longleftrightarrow>
           (\<exists>pre post. h = pre @ CHR '':'' # m @ CHR '';'' # post \<and>
              CHR '':'' \<notin> set pre \<and> CHR '';'' \<notin> set m)"
proof
  assume "first_mime_pattern h m"
  then obtain pre post where
      h: "h = pre @ CHR '':'' # m @ CHR '';'' # post" and
      m: "CHR '';'' \<notin> set m" and
      first: "\<forall>p1 p2. pre = p1 @ CHR '':'' # p2 \<longrightarrow>
               \<not> starts_match (p2 @ CHR '':'' # m @ CHR '';'' # post)"
    unfolding first_mime_pattern_def by blast
  have "CHR '':'' \<notin> set pre"
  proof
    assume "CHR '':'' \<in> set pre"
    then obtain p1 p2 where p: "pre = p1 @ CHR '':'' # p2"
      by (meson split_list)
    have "\<forall>c\<in>set (p2 @ CHR '':'' # m). \<not> line_terminator c"
      using assms unfolding h p by auto
    then have "starts_match (p2 @ CHR '':'' # m @ CHR '';'' # post)"
      unfolding starts_match_def
      by (intro exI[of _ "p2 @ CHR '':'' # m"] exI[of _ post]) simp
    with first p show False by blast
  qed
  with h m show "\<exists>pre post. h = pre @ CHR '':'' # m @ CHR '';'' # post \<and>
      CHR '':'' \<notin> set pre \<and> CHR '';'' \<notin> set m"
    by blast
next
  assume "\<exists>pre post. h = pre @ CHR '':'' # m @ CHR '';'' # post \<and>
      CHR '':'' \<notin> set pre \<and> CHR '';'' \<notin> set m"
  then obtain pre post where h: "h = pre @ CHR '':'' # m @ CHR '';'' # post"
    and p: "CHR '':'' \<notin> set pre" and m: "CHR '';'' \<notin> set m"
    by blast
  have l: "\<forall>c\<in>set m. \<not> line_terminator c" using assms unfolding h by auto
  have "\<forall>p1 p2. pre = p1 @ CHR '':'' # p2 \<longrightarrow>
          \<not> starts_match (p2 @ CHR '':'' # m @ CHR '';'' # post)"
    using p by auto
  with h m l show "first_mime_pattern h m"
    unfolding first_mime_pattern_def by blast
qed

subsection \<open>The pieces of the split\<close>

lemma split_from_unfold:
  "split_from sep cur s =
     (cur @ takeWhile (\<lambda>c. c \<noteq> sep) s) #
       (case dropWhile (\<lambda>c. c \<noteq> sep) s of [] \<Rightarrow> [] | _ # r \<Rightarrow> split_from sep [] r)"
  by (induction s arbitrary: cur) auto

lemma item_split_0:
  "item (split_on sep s) 0 = Some (takeWhile (\<lambda>c. c \<noteq> sep) s)"
  by (subst split_on_def, subst split_from_unfold) (simp add: item_def)

lemma split_on_no_sep: "sep \<notin> set s \<Longrightarrow> split_on sep s = [s]"
proof -
  assume a: "sep \<notin> set s"
  then have d: "dropWhile (\<lambda>c. c \<noteq> sep) s = []" by auto
  from a have t: "takeWhile (\<lambda>c. c \<noteq> sep) s = s" by (auto simp: takeWhile_eq_all_conv)
  have "split_from sep [] s = [s]"
    by (subst split_from_unfold) (simp only: d t list.case append_Nil)
  then show ?thesis by (simp add: split_on_def)
qed

lemma split_on_sep:
  "sep \<in> set s \<Longrightarrow>
     split_on sep s =
       takeWhile (\<lambda>c. c \<noteq> sep) s # split_on sep (tl (dropWhile (\<lambda>c. c \<noteq> sep) s))"
proof -
  assume "sep \<in> set s"
  then obtain a r where "dropWhile (\<lambda>c. c \<noteq> sep) s = a # r"
    by (cases "dropWhile (\<lambda>c. c \<noteq> sep) s") auto
  then show ?thesis
    unfolding split_on_def by (subst split_from_unfold) simp
qed

lemma split_on_hd: "\<exists>ps. split_on sep s = takeWhile (\<lambda>c. c \<noteq> sep) s # ps"
  unfolding split_on_def by (subst split_from_unfold) simp

lemma item_split_1:
  "item (split_on sep s) (Suc 0) =
     (if sep \<in> set s
      then Some (takeWhile (\<lambda>c. c \<noteq> sep) (tl (dropWhile (\<lambda>c. c \<noteq> sep) s)))
      else None)"
proof (cases "sep \<in> set s")
  case True
  obtain ps where "split_on sep (tl (dropWhile (\<lambda>c. c \<noteq> sep) s)) =
      takeWhile (\<lambda>c. c \<noteq> sep) (tl (dropWhile (\<lambda>c. c \<noteq> sep) s)) # ps"
    using split_on_hd by blast
  then show ?thesis using True
    by (simp add: split_on_sep item_def)
next
  case False
  then show ?thesis by (simp add: split_on_no_sep item_def)
qed

subsection \<open>When the encoder resolves and when it rejects\<close>

text \<open>
  The two pieces the code works with are the header segment and the data segment up to
  its first comma.
\<close>

lemma onload_eq:
  "onload result =
     (if CHR '','' \<notin> set result \<or> header_segment result = [] \<or>
         takeWhile (\<lambda>c. c \<noteq> CHR '','') (data_segment result) = []
      then Rejected (Error ''Invalid file format'')
      else (case match_mime (header_segment result) of
              None \<Rightarrow> Rejected (Error ''Could not determine MIME type'')
            | Some g \<Rightarrow>
                if g = [] then Rejected (Error ''Could not determine MIME type'')
                else Resolved
                      \<lparr>mimeType = g,
                         data = takeWhile (\<lambda>c. c \<noteq> CHR '','') (data_segment result)\<rparr>))"
  unfolding onload_def header_segment_def data_segment_def
proof -
  have one: "item (split_on CHR '','' result) 1 = item (split_on CHR '','' result) (Suc 0)"
    by simp
  show "(case (item (split_on CHR '','' result) 0, item (split_on CHR '','' result) 1) of
        (Some header, Some dat) \<Rightarrow>
          if header = [] \<or> dat = [] then Rejected (Error ''Invalid file format'')
          else (case match_mime header of
                  None \<Rightarrow> Rejected (Error ''Could not determine MIME type'')
                | Some g \<Rightarrow>
                    if g = [] then Rejected (Error ''Could not determine MIME type'')
                    else Resolved \<lparr>mimeType = g, data = dat\<rparr>)
      | _ \<Rightarrow> Rejected (Error ''Invalid file format'')) =
    (if CHR '','' \<notin> set result \<or>
        takeWhile (\<lambda>c. c \<noteq> CHR '','') result = [] \<or>
        takeWhile (\<lambda>c. c \<noteq> CHR '','')
         (tl (dropWhile (\<lambda>c. c \<noteq> CHR '','') result)) = []
     then Rejected (Error ''Invalid file format'')
     else case match_mime (takeWhile (\<lambda>c. c \<noteq> CHR '','') result) of
          None \<Rightarrow> Rejected (Error ''Could not determine MIME type'')
          | Some g \<Rightarrow>
              if g = [] then Rejected (Error ''Could not determine MIME type'')
              else Resolved
                    \<lparr>mimeType = g,
                       data = takeWhile (\<lambda>c. c \<noteq> CHR '','')
                         (tl (dropWhile (\<lambda>c. c \<noteq> CHR '','') result))\<rparr>)"
    unfolding one item_split_0 item_split_1 by simp
qed


lemma onload_rejects_Error: "onload result = Rejected r \<Longrightarrow> \<exists>msg. r = Error msg"
  by (auto simp: onload_eq split: if_splits option.splits)


lemmas onload_eval = onload_def split_on_def item_def line_terminator_def

text \<open>
  When the data segment has no comma, the second piece of the split is the whole data
  segment.
\<close>

lemma takeWhile_data_segment:
  "CHR '','' \<notin> set (data_segment result) \<Longrightarrow>
     takeWhile (\<lambda>c. c \<noteq> CHR '','') (data_segment result) = data_segment result"
  by (auto simp: takeWhile_eq_all_conv)

lemma onload_single_split:
  assumes "CHR '','' \<notin> set (data_segment result)"
  shows "onload result =
     (if no_header_data_split result then Rejected (Error ''Invalid file format'')
      else (case match_mime (header_segment result) of
              None \<Rightarrow> Rejected (Error ''Could not determine MIME type'')
            | Some g \<Rightarrow>
                if g = [] then Rejected (Error ''Could not determine MIME type'')
                else Resolved \<lparr>mimeType = g, data = data_segment result\<rparr>))"
  unfolding onload_eq[of result] takeWhile_data_segment[OF assms] no_header_data_split_def
  by (rule refl)

text \<open>
  In a one-line header with at most one colon, the regular expression finds exactly the
  \<^verbatim>\<open>:<mime>;\<close> pattern of the header.
\<close>

lemma single_colon:
  assumes "count_list (pre @ CHR '':'' # rest) CHR '':'' \<le> 1"
  shows "CHR '':'' \<notin> set pre"
proof -
  have "count_list pre CHR '':'' = 0" using assms by simp
  then show ?thesis unfolding count_list_0_iff .
qed

lemma mime_pattern_iff:
  assumes "count_list h CHR '':'' \<le> 1" and "\<forall>c\<in>set h. \<not> line_terminator c"
  shows "mime_pattern h m \<longleftrightarrow> match_mime h = Some m"
proof
  assume "mime_pattern h m"
  then obtain pre post where h: "h = pre @ CHR '':'' # m @ CHR '';'' # post"
    and m: "CHR '';'' \<notin> set m"
    unfolding mime_pattern_def by blast
  from assms(1) have "CHR '':'' \<notin> set pre" unfolding h by (rule single_colon)
  with h m have "\<exists>pre post. h = pre @ CHR '':'' # m @ CHR '';'' # post \<and>
      CHR '':'' \<notin> set pre \<and> CHR '';'' \<notin> set m"
    by blast
  then have "first_mime_pattern h m"
    by (simp only: first_mime_pattern_single_line[OF assms(2)])
  then show "match_mime h = Some m" by (simp only: match_mime_iff)
next
  assume "match_mime h = Some m"
  then have "first_mime_pattern h m" by (simp only: match_mime_iff)
  then show "mime_pattern h m"
    unfolding first_mime_pattern_def mime_pattern_def by blast
qed

lemma has_mime_pattern_iff:
  assumes "count_list h CHR '':'' \<le> 1" and "\<forall>c\<in>set h. \<not> line_terminator c"
  shows "has_mime_pattern h \<longleftrightarrow> (\<exists>m. m \<noteq> [] \<and> match_mime h = Some m)"
  unfolding has_mime_pattern_def mime_pattern_iff[OF assms] by (rule refl)

lemma onload_data_uri_style:
  assumes "data_uri_style result"
  shows "onload result =
     (if no_header_data_split result then Rejected (Error ''Invalid file format'')
      else if \<not> has_mime_pattern (header_segment result)
        then Rejected (Error ''Could not determine MIME type'')
      else Resolved \<lparr>mimeType = the (match_mime (header_segment result)),
                      data = data_segment result\<rparr>)"
proof -
  from assms have c: "count_list (header_segment result) CHR '':'' \<le> 1"
    and l: "\<forall>c\<in>set (header_segment result). \<not> line_terminator c"
    and d: "CHR '','' \<notin> set (data_segment result)"
    by (simp_all add: data_uri_style_def)
  show ?thesis
    unfolding onload_single_split[OF d] has_mime_pattern_iff[OF c l]
    by (cases "match_mime (header_segment result)") simp_all
qed

lemma header_and_data:
  assumes "CHR '','' \<in> set result"
  shows "result = header_segment result @ CHR '','' # data_segment result"
proof -
  from assms obtain r where r: "dropWhile (\<lambda>c. c \<noteq> CHR '','') result = CHR '','' # r"
  proof (cases "dropWhile (\<lambda>c. c \<noteq> CHR '','') result")
    case Nil
    then show ?thesis using assms by auto
  next
    case (Cons a r)
    then have "a = CHR '',''" using hd_dropWhile[of "\<lambda>c. c \<noteq> CHR '',''" result] by auto
    then show ?thesis using Cons that by simp
  qed
  have "result = takeWhile (\<lambda>c. c \<noteq> CHR '','') result @ dropWhile (\<lambda>c. c \<noteq> CHR '','') result"
    by simp
  then show ?thesis
    unfolding header_segment_def data_segment_def r by simp
qed

lemma header_segment_no_comma: "CHR '','' \<notin> set (header_segment result)"
  unfolding header_segment_def by (auto dest: set_takeWhileD)

subsection \<open>The base64 payload of the file read\<close>

lemma length_alphabet: "length base64_alphabet = 64"
  unfolding base64_alphabet_def by simp

lemma distinct_alphabet: "distinct base64_alphabet"
  unfolding base64_alphabet_def by simp

lemma base64_char_in: "base64_char n \<in> set base64_alphabet"
  unfolding base64_char_def by (simp add: length_alphabet)

lemma base64_index_char: "base64_index (base64_char n) = n mod 64"
proof -
  let ?i = "n mod 64"
  have i: "?i < length base64_alphabet" by (simp add: length_alphabet)
  have "takeWhile (\<lambda>x. x \<noteq> base64_alphabet ! ?i) base64_alphabet = take ?i base64_alphabet"
  proof (rule takeWhile_eq_take_P_nth)
    fix j assume "j < ?i" "j < length base64_alphabet"
    then show "base64_alphabet ! j \<noteq> base64_alphabet ! ?i"
      using distinct_alphabet i by (simp add: nth_eq_iff_index_eq)
  next
    show "\<not> base64_alphabet ! ?i \<noteq> base64_alphabet ! ?i" by simp
  qed
  then show ?thesis using i by (simp add: base64_index_def base64_char_def)
qed

lemma base64_char_not_pad: "base64_char n \<noteq> CHR ''=''"
  using base64_char_in[of n] unfolding base64_alphabet_def by auto

lemma base64_char_not_comma: "base64_char n \<noteq> CHR '',''"
  using base64_char_in[of n] unfolding base64_alphabet_def by auto

lemma byte_lt: "unat (a :: 8 word) < 256"
  using unsigned_less[of a] by simp

lemma hi4: "y < 256 \<Longrightarrow> y div 16 < (16::nat)"
  by (simp add: less_mult_imp_div_less)

lemma hi2: "y < 256 \<Longrightarrow> y div 64 < (4::nat)"
  by (simp add: less_mult_imp_div_less)

lemma hi6: "y < 256 \<Longrightarrow> y div 4 < (64::nat)"
  by (simp add: less_mult_imp_div_less)

lemma split16: "q < 16 \<Longrightarrow> (r * 16 + q) div 16 = (r::nat) \<and> (r * 16 + q) mod 16 = q"
  by simp

lemma split4: "q < 4 \<Longrightarrow> (r * 4 + q) div 4 = (r::nat) \<and> (r * 4 + q) mod 4 = q"
  by simp

lemma sextet2: "y < 256 \<Longrightarrow> (x mod 4 * 16 + y div 16) mod 64 = x mod 4 * 16 + y div (16::nat)"
proof -
  assume y: "y < 256"
  have "x mod 4 < 4" by simp
  then have "x mod 4 * 16 + y div 16 < 64" using hi4[OF y] by linarith
  then show ?thesis by simp
qed

lemma sextet3: "z < 256 \<Longrightarrow> (y mod 16 * 4 + z div 64) mod 64 = y mod 16 * 4 + z div (64::nat)"
proof -
  assume z: "z < 256"
  have "y mod 16 < 16" by simp
  then have "y mod 16 * 4 + z div 64 < 64" using hi2[OF z] by linarith
  then show ?thesis by simp
qed

lemma sextet2': "(x mod 4 * 16) mod 64 = x mod 4 * (16::nat)"
proof -
  have "x mod 4 < 4" by simp
  then have "x mod 4 * 16 < 64" by linarith
  then show ?thesis by simp
qed

lemma sextet3': "(y mod 16 * 4) mod 64 = y mod 16 * (4::nat)"
proof -
  have "y mod 16 < 16" by simp
  then have "y mod 16 * 4 < 64" by linarith
  then show ?thesis by simp
qed

lemma byte1: "y < 256 \<Longrightarrow> x div 4 * 4 + (x mod 4 * 16 + y div 16) div 16 = (x::nat)"
  using split16[of "y div 16" "x mod 4"] hi4[of y] by simp

lemma byte2:
  "y < 256 \<Longrightarrow> z < 256 \<Longrightarrow>
     (x mod 4 * 16 + y div 16) mod 16 * 16 + (y mod 16 * 4 + z div 64) div 4 = (y::nat)"
  using split16[of "y div 16" "x mod 4"] split4[of "z div 64" "y mod 16"]
  by (simp add: hi4 hi2)

lemma byte2': "y < 256 \<Longrightarrow> (x mod 4 * 16 + y div 16) mod 16 * 16 + (y mod 16 * 4) div 4 = (y::nat)"
  using split16[of "y div 16" "x mod 4"] by (simp add: hi4)

lemma byte3: "z < 256 \<Longrightarrow> (y mod 16 * 4 + z div 64) mod 4 * 64 + z mod 64 = (z::nat)"
  using split4[of "z div 64" "y mod 16"] by (simp add: hi2)

lemma byte1': "x div 4 * 4 + (x mod 4 * 16) div 16 = (x::nat)"
  by simp

lemma index_sextet1: "base64_index (base64_char (unat (a::8 word) div 4)) = unat a div 4"
  by (simp add: base64_index_char hi6 byte_lt)

lemma index_sextet2:
  "base64_index (base64_char (unat (a::8 word) mod 4 * 16 + unat (b::8 word) div 16)) =
     unat a mod 4 * 16 + unat b div 16"
  by (simp only: base64_index_char sextet2[OF byte_lt])

lemma index_sextet2': "base64_index (base64_char (unat (a::8 word) mod 4 * 16)) = unat a mod 4 * 16"
  by (simp only: base64_index_char sextet2')

lemma index_sextet3:
  "base64_index (base64_char (unat (b::8 word) mod 16 * 4 + unat (c::8 word) div 64)) =
     unat b mod 16 * 4 + unat c div 64"
  by (simp only: base64_index_char sextet3[OF byte_lt])

lemma index_sextet3': "base64_index (base64_char (unat (b::8 word) mod 16 * 4)) = unat b mod 16 * 4"
  by (simp only: base64_index_char sextet3')

lemma index_sextet4: "base64_index (base64_char (unat (c::8 word) mod 64)) = unat c mod 64"
  by (simp add: base64_index_char)

lemmas index_sextet =
  index_sextet1 index_sextet2 index_sextet2' index_sextet3 index_sextet3' index_sextet4

lemma unbase64_group3:
  "unbase64 (base64 (a # b # c # rest)) = a # b # c # unbase64 (base64 rest)"
proof -
  have "unbase64 (base64 (a # b # c # rest)) =
          [of_nat (unat a), of_nat (unat b), of_nat (unat c)] @ unbase64 (base64 rest)"
    by (simp only: base64.simps unbase64.simps append_Cons append_Nil base64_char_not_pad
        if_False index_sextet byte1[OF byte_lt] byte2[OF byte_lt byte_lt] byte3[OF byte_lt])
  then show ?thesis by simp
qed

lemma unbase64_group2: "unbase64 (base64 [a, b]) = [a, b]"
proof -
  have "unbase64 (base64 [a, b]) = [of_nat (unat a), of_nat (unat b)]"
    by (simp only: base64.simps unbase64.simps base64_char_not_pad if_False if_True simp_thms
        index_sextet byte1[OF byte_lt] byte2'[OF byte_lt])
  then show ?thesis by simp
qed

lemma unbase64_group1: "unbase64 (base64 [a]) = [a]"
proof -
  have "unbase64 (base64 [a]) = [of_nat (unat a)]"
    by (simp only: base64.simps unbase64.simps base64_char_not_pad if_False if_True simp_thms
        index_sextet byte1')
  then show ?thesis by simp
qed

lemma unbase64_base64: "unbase64 (base64 bs) = bs"
proof (induction bs rule: base64.induct)
  case (1 a b c rest)
  then show ?case by (simp only: unbase64_group3)
next
  case (2 a b)
  show ?case by (rule unbase64_group2)
next
  case (3 a)
  show ?case by (rule unbase64_group1)
next
  case 4
  show ?case by simp
qed

lemma base64_no_comma: "CHR '','' \<notin> set (base64 bs)"
  by (induction bs rule: base64.induct) (simp_all add: base64_char_not_comma[symmetric])

lemma base64_nonempty: "bs \<noteq> [] \<Longrightarrow> base64 bs \<noteq> []"
  by (induction bs rule: base64.induct) simp_all

subsection \<open>The strings of the file read\<close>

lemma name_char_plain:
  "name_char c \<Longrightarrow>
     c \<noteq> CHR '','' \<and> c \<noteq> CHR '':'' \<and> c \<noteq> CHR '';'' \<and> \<not> line_terminator c"
  by (auto simp: name_char_def line_terminator_def)

lemma essence_nonempty: "essence m \<noteq> []"
  by (cases "names m") (simp add: essence.rep_eq)

lemma essence_plain:
  assumes "c \<in> set (essence m)"
  shows "c \<noteq> CHR '','' \<and> c \<noteq> CHR '':'' \<and> c \<noteq> CHR '';'' \<and> \<not> line_terminator c"
proof -
  obtain t s where n: "names m = (t, s)" by (cases "names m")
  have "names m \<in> {(t, s). is_name t \<and> is_name s}" by (rule names)
  then have ts: "\<forall>c\<in>set t. name_char c" "\<forall>c\<in>set s. name_char c"
    unfolding n by (simp_all add: is_name_def)
  from assms have "c \<in> set t \<or> c = CHR ''/'' \<or> c \<in> set s"
    by (auto simp: essence.rep_eq n)
  then show ?thesis
  proof (elim disjE)
    assume "c \<in> set t"
    with ts(1) have "name_char c" by blast
    then show ?thesis by (rule name_char_plain)
  next
    assume "c = CHR ''/''"
    then show ?thesis by (simp add: line_terminator_def)
  next
    assume "c \<in> set s"
    with ts(2) have "name_char c" by blast
    then show ?thesis by (rule name_char_plain)
  qed
qed

lemma content_type_nonempty: "content_type f \<noteq> []"
  by (cases "file_type f") (simp_all add: content_type_def essence_nonempty)

lemma content_type_plain:
  assumes "c \<in> set (content_type f)"
  shows "c \<noteq> CHR '','' \<and> c \<noteq> CHR '':'' \<and> c \<noteq> CHR '';'' \<and> \<not> line_terminator c"
proof (cases "file_type f")
  case None
  with assms have "c \<in> set ''application/octet-stream''" by (simp add: content_type_def)
  then show ?thesis by (auto simp: line_terminator_def)
next
  case (Some m)
  with assms have "c \<in> set (essence m)" by (simp add: content_type_def)
  then show ?thesis by (rule essence_plain)
qed

lemma lazy_until_semicolon_append:
  "(\<forall>c\<in>set (takeWhile (\<lambda>c. c \<noteq> CHR '';'') t). \<not> line_terminator c) \<Longrightarrow>
     lazy_until_semicolon (t @ CHR '';'' # r) = Some (takeWhile (\<lambda>c. c \<noteq> CHR '';'') t)"
  by (induction t) auto

lemma header_segment_data_url:
  "CHR '','' \<notin> set t \<Longrightarrow>
     header_segment (''data:'' @ t @ '';base64,'' @ p) = ''data:'' @ t @ '';base64''"
  by (simp add: header_segment_def takeWhile_append)

lemma data_segment_data_url:
  "CHR '','' \<notin> set t \<Longrightarrow> data_segment (''data:'' @ t @ '';base64,'' @ p) = p"
  by (simp add: data_segment_def dropWhile_append)

lemma match_mime_data_url:
  "(\<forall>c\<in>set (takeWhile (\<lambda>c. c \<noteq> CHR '';'') t). \<not> line_terminator c) \<Longrightarrow>
     match_mime (''data:'' @ t @ '';base64'') = Some (takeWhile (\<lambda>c. c \<noteq> CHR '';'') t)"
  using lazy_until_semicolon_append[of t "''base64''"] by simp

lemma header_segment_file:
  "header_segment (data_url f) = ''data:'' @ content_type f @ '';base64''"
proof -
  have "CHR '','' \<notin> set (content_type f)" using content_type_plain by blast
  then show ?thesis unfolding data_url_def by (rule header_segment_data_url)
qed

lemma data_segment_file: "data_segment (data_url f) = base64 (file_bytes f)"
proof -
  have "CHR '','' \<notin> set (content_type f)" using content_type_plain by blast
  then show ?thesis unfolding data_url_def by (rule data_segment_data_url)
qed

lemma match_mime_file: "match_mime (header_segment (data_url f)) = Some (content_type f)"
proof -
  have s: "takeWhile (\<lambda>c. c \<noteq> CHR '';'') (content_type f) = content_type f"
    using content_type_plain by (auto simp: takeWhile_eq_all_conv)
  have "\<forall>c\<in>set (takeWhile (\<lambda>c. c \<noteq> CHR '';'') (content_type f)). \<not> line_terminator c"
    unfolding s using content_type_plain by blast
  from match_mime_data_url[OF this] show ?thesis
    unfolding header_segment_file s .
qed

text \<open>Every string of the file read is a data-URI-style string.\<close>

lemma data_url_style: "data_uri_style (data_url f)"
proof -
  have "count_list (content_type f) CHR '':'' = 0"
    unfolding count_list_0_iff using content_type_plain by blast
  then have 1: "count_list (header_segment (data_url f)) CHR '':'' \<le> 1"
    unfolding header_segment_file by simp
  have 2: "\<forall>c\<in>set (header_segment (data_url f)). \<not> line_terminator c"
    unfolding header_segment_file using content_type_plain
    by (auto simp: line_terminator_def)
  have 3: "CHR '','' \<notin> set (data_segment (data_url f))"
    unfolding data_segment_file by (rule base64_no_comma)
  from 1 2 3 show ?thesis unfolding data_uri_style_def by blast
qed

lemma onload_data_url:
  "onload (data_url f) =
     (if file_bytes f = [] then Rejected (Error ''Invalid file format'')
      else Resolved \<lparr>mimeType = content_type f, data = base64 (file_bytes f)\<rparr>)"
proof -
  have k: "CHR '','' \<notin> set (data_segment (data_url f))"
    unfolding data_segment_file by (rule base64_no_comma)
  have c: "CHR '','' \<in> set (data_url f)" by (simp add: data_url_def)
  have b: "base64 (file_bytes f) = [] \<longleftrightarrow> file_bytes f = []"
    using base64_nonempty[of "file_bytes f"] by auto
  have n: "no_header_data_split (data_url f) \<longleftrightarrow> file_bytes f = []"
    unfolding no_header_data_split_def header_segment_file data_segment_file b
    using c by simp
  show ?thesis
    unfolding onload_single_split[OF k] n match_mime_file data_segment_file
    using content_type_nonempty[of f] by simp
qed

lemma data_url_child_png: "data_url child_png = ''data:image/png;base64,iVBORw0KGgoAAA==''"
  by (simp add: data_url_def content_type_def child_png_def essence.rep_eq image_png.rep_eq
      base64_char_def base64_alphabet_def)

lemma data_url_adult_jpeg: "data_url adult_jpeg = ''data:image/jpeg;base64,/9j/4AAQSkZJRg==''"
  by (simp add: data_url_def content_type_def adult_jpeg_def essence.rep_eq image_jpeg.rep_eq
      base64_char_def base64_alphabet_def)

lemma data_url_empty_png: "data_url empty_png = ''data:image/png;base64,''"
  by (simp add: data_url_def content_type_def empty_png_def essence.rep_eq image_png.rep_eq)

lemma data_url_untyped_blob:
  "data_url untyped_blob = ''data:application/octet-stream;base64,QQ==''"
  by (simp add: data_url_def content_type_def untyped_blob_def base64_char_def
      base64_alphabet_def)

lemma encode_child_png:
  "fileToBase64 (stub_env browser_reader client) child_png =
     Resolved \<lparr>mimeType = ''image/png'', data = ''iVBORw0KGgoAAA==''\<rparr>"
  by (simp add: fileToBase64_def stub_env_def browser_reader_def data_url_child_png onload_eval)

lemma encode_adult_jpeg:
  "fileToBase64 (stub_env browser_reader client) adult_jpeg =
     Resolved \<lparr>mimeType = ''image/jpeg'', data = ''/9j/4AAQSkZJRg==''\<rparr>"
  by (simp add: fileToBase64_def stub_env_def browser_reader_def data_url_adult_jpeg onload_eval)

subsection \<open>Claims about the encoder\<close>



text \<open>
  Claim C5. A data-URI-style string of the file read that contains a comma is its
  header segment, the first comma and its data segment, and the header segment has no
  comma. \<^verbatim>\<open>fileToBase64\<close> resolves exactly when both segments are non-empty and the header
  contains a \<^verbatim>\<open>:<mime>;\<close> pattern with a non-empty \<^verbatim>\<open><mime>\<close>; the payload of the image
  is then the entire data segment, everything after the first comma, and its media type
  is the \<^verbatim>\<open><mime>\<close> of the one \<^verbatim>\<open>:<mime>;\<close> pattern of the header.
\<close>

theorem fileToBase64_segments:
  assumes "readAsDataURL e file = OnLoad result"
    and "data_uri_style result"
    and "CHR '','' \<in> set result"
  shows "result = header_segment result @ CHR '','' # data_segment result
         \<and> CHR '','' \<notin> set (header_segment result)
         \<and> ((\<exists>img. fileToBase64 e file = Resolved img) \<longleftrightarrow>
              header_segment result \<noteq> [] \<and> data_segment result \<noteq> [] \<and>
              has_mime_pattern (header_segment result))
         \<and> (\<forall>img. fileToBase64 e file = Resolved img \<longrightarrow>
              data img = data_segment result \<and>
              (\<forall>m. mime_pattern (header_segment result) m \<longleftrightarrow> m = mimeType img))"
proof -
  have f: "fileToBase64 e file = onload result"
    using assms(1) by (simp add: fileToBase64_def)
  from assms(2) have c: "count_list (header_segment result) CHR '':'' \<le> 1"
    and l: "\<forall>c\<in>set (header_segment result). \<not> line_terminator c"
    by (simp_all add: data_uri_style_def)
  have 1: "result = header_segment result @ CHR '','' # data_segment result"
    by (rule header_and_data[OF assms(3)])
  have 2: "CHR '','' \<notin> set (header_segment result)"
    by (rule header_segment_no_comma)
  have n: "no_header_data_split result \<longleftrightarrow>
             header_segment result = [] \<or> data_segment result = []"
    unfolding no_header_data_split_def using assms(3) by simp
  have 3: "(\<exists>img. onload result = Resolved img) \<longleftrightarrow>
             header_segment result \<noteq> [] \<and> data_segment result \<noteq> [] \<and>
             has_mime_pattern (header_segment result)"
    unfolding onload_data_uri_style[OF assms(2)] n by auto
  have 4: "data img = data_segment result \<and>
           (\<forall>m. mime_pattern (header_segment result) m \<longleftrightarrow> m = mimeType img)"
    if r: "onload result = Resolved img" for img
  proof -
    from r have h: "has_mime_pattern (header_segment result)"
      and i: "img = \<lparr>mimeType = the (match_mime (header_segment result)),
                      data = data_segment result\<rparr>"
      unfolding onload_data_uri_style[OF assms(2)] by (simp_all split: if_splits)
    from h obtain g where g: "match_mime (header_segment result) = Some g"
      unfolding has_mime_pattern_iff[OF c l] by blast
    have "mime_pattern (header_segment result) m \<longleftrightarrow> m = mimeType img" for m
      unfolding mime_pattern_iff[OF c l] g i by auto
    moreover have "data img = data_segment result" unfolding i by simp
    ultimately show ?thesis by blast
  qed
  have 5: "\<forall>img. onload result = Resolved img \<longrightarrow>
             data img = data_segment result \<and>
             (\<forall>m. mime_pattern (header_segment result) m \<longleftrightarrow> m = mimeType img)"
    using 4 by blast
  show ?thesis
    unfolding f by (intro conjI) (rule 1, rule 2, rule 3, rule 5)
qed

theorem fileToBase64_segments_witness:
  "readAsDataURL (stub_env browser_reader client_hangs) adult_jpeg =
        OnLoad ''data:image/jpeg;base64,/9j/4AAQSkZJRg==''
   \<and> data_uri_style ''data:image/jpeg;base64,/9j/4AAQSkZJRg==''
   \<and> CHR '','' \<in> set ''data:image/jpeg;base64,/9j/4AAQSkZJRg==''
   \<and> header_segment ''data:image/jpeg;base64,/9j/4AAQSkZJRg=='' = ''data:image/jpeg;base64''
   \<and> data_segment ''data:image/jpeg;base64,/9j/4AAQSkZJRg=='' = ''/9j/4AAQSkZJRg==''
   \<and> fileToBase64 (stub_env browser_reader client_hangs) adult_jpeg =
        Resolved \<lparr>mimeType = ''image/jpeg'', data = ''/9j/4AAQSkZJRg==''\<rparr>
   \<and> mime_pattern ''data:image/jpeg;base64'' ''image/jpeg''
   \<and> has_mime_pattern ''data:image/jpeg;base64''"
proof -
  let ?e = "stub_env browser_reader client_hangs"
  let ?r = "''data:image/jpeg;base64,/9j/4AAQSkZJRg==''"
  have 1: "readAsDataURL ?e adult_jpeg = OnLoad ?r"
    by (simp add: stub_env_def browser_reader_def data_url_adult_jpeg)
  have 2: "data_uri_style ?r"
    by (simp add: data_uri_style_def header_segment_def data_segment_def line_terminator_def)
  have 3: "CHR '','' \<in> set ?r" by simp
  have 4: "header_segment ?r = ''data:image/jpeg;base64''"
    by (simp add: header_segment_def)
  have 5: "data_segment ?r = ''/9j/4AAQSkZJRg==''"
    by (simp add: data_segment_def)
  have 6: "fileToBase64 ?e adult_jpeg =
        Resolved \<lparr>mimeType = ''image/jpeg'', data = ''/9j/4AAQSkZJRg==''\<rparr>"
    by (rule encode_adult_jpeg)
  note t = fileToBase64_segments[OF 1 2 3, unfolded 4 5]
  from t 6 have 7: "mime_pattern ''data:image/jpeg;base64'' ''image/jpeg''"
    by simp
  from t 6 have 8: "has_mime_pattern ''data:image/jpeg;base64''"
    by blast
  show ?thesis using 1 2 3 4 5 6 7 8 by blast
qed

text \<open>
  Claim C6, as amended. For a file read as a base64 data URL: when the file is not
  empty, \<^verbatim>\<open>fileToBase64\<close> resolves with an image whose media type is the file's (and
  \<^verbatim>\<open>application/octet-stream\<close> for a file without one), whose payload is the base64
  encoding of the file's bytes, and decoding the payload gives the bytes back; when the
  file is empty, \<^verbatim>\<open>fileToBase64\<close> rejects it as an invalid file format.
\<close>

theorem payload_round_trip:
  assumes "readAsDataURL e = browser_reader"
  shows "(file_bytes f \<noteq> [] \<longrightarrow>
            (\<exists>img. fileToBase64 e f = Resolved img
               \<and> mimeType img = content_type f
               \<and> data img = base64 (file_bytes f)
               \<and> unbase64 (data img) = file_bytes f))
         \<and> (file_bytes f = [] \<longrightarrow>
               fileToBase64 e f = Rejected (Error ''Invalid file format''))"
proof -
  have o: "fileToBase64 e f = onload (data_url f)"
    using assms by (simp add: fileToBase64_def browser_reader_def)
  show ?thesis
    unfolding o onload_data_url by (simp add: unbase64_base64)
qed

theorem payload_round_trip_witness:
  "readAsDataURL (stub_env browser_reader client_hangs) = browser_reader
   \<and> file_bytes child_png \<noteq> []
   \<and> fileToBase64 (stub_env browser_reader client_hangs) child_png =
        Resolved \<lparr>mimeType = ''image/png'', data = ''iVBORw0KGgoAAA==''\<rparr>
   \<and> unbase64 ''iVBORw0KGgoAAA=='' = file_bytes child_png
   \<and> file_bytes untyped_blob \<noteq> []
   \<and> fileToBase64 (stub_env browser_reader client_hangs) untyped_blob =
        Resolved \<lparr>mimeType = ''application/octet-stream'', data = ''QQ==''\<rparr>
   \<and> unbase64 ''QQ=='' = file_bytes untyped_blob
   \<and> file_bytes (adult_jpeg\<lparr>file_bytes := []\<rparr>) = []
   \<and> fileToBase64 (stub_env browser_reader client_hangs) (adult_jpeg\<lparr>file_bytes := []\<rparr>) =
        Rejected (Error ''Invalid file format'')"
proof -
  let ?e = "stub_env browser_reader client_hangs"
  have 1: "readAsDataURL ?e = browser_reader"
    by (simp add: stub_env_def)
  have 2: "file_bytes child_png \<noteq> []" by (simp add: child_png_def)
  have 3: "content_type child_png = ''image/png''"
    by (simp add: content_type_def child_png_def essence.rep_eq image_png.rep_eq)
  have 4: "base64 (file_bytes child_png) = ''iVBORw0KGgoAAA==''"
    by (simp add: child_png_def base64_char_def base64_alphabet_def)
  from payload_round_trip[OF 1, of child_png] 2 obtain img where
    "fileToBase64 ?e child_png = Resolved img"
    "mimeType img = ''image/png''" "data img = ''iVBORw0KGgoAAA==''"
    "unbase64 (data img) = file_bytes child_png"
    unfolding 3 4 by blast
  then have 5: "fileToBase64 ?e child_png =
        Resolved \<lparr>mimeType = ''image/png'', data = ''iVBORw0KGgoAAA==''\<rparr>"
    and 6: "unbase64 ''iVBORw0KGgoAAA=='' = file_bytes child_png"
    by (cases img; simp)+
  have 7: "file_bytes untyped_blob \<noteq> []" by (simp add: untyped_blob_def)
  have 8: "content_type untyped_blob = ''application/octet-stream''"
    by (simp add: content_type_def untyped_blob_def)
  have 9: "base64 (file_bytes untyped_blob) = ''QQ==''"
    by (simp add: untyped_blob_def base64_char_def base64_alphabet_def)
  from payload_round_trip[OF 1, of untyped_blob] 7 obtain img' where
    "fileToBase64 ?e untyped_blob = Resolved img'"
    "mimeType img' = ''application/octet-stream''" "data img' = ''QQ==''"
    "unbase64 (data img') = file_bytes untyped_blob"
    unfolding 8 9 by blast
  then have 10: "fileToBase64 ?e untyped_blob =
        Resolved \<lparr>mimeType = ''application/octet-stream'', data = ''QQ==''\<rparr>"
    and 11: "unbase64 ''QQ=='' = file_bytes untyped_blob"
    by (cases img'; simp)+
  have 12: "file_bytes (adult_jpeg\<lparr>file_bytes := []\<rparr>) = []" by simp
  from payload_round_trip[OF 1, of "adult_jpeg\<lparr>file_bytes := []\<rparr>"] 12
  have 13: "fileToBase64 ?e (adult_jpeg\<lparr>file_bytes := []\<rparr>) =
        Rejected (Error ''Invalid file format'')"
    by blast
  show ?thesis using 1 2 5 6 7 10 11 12 13 by blast
qed

text \<open>
  Claim C6 as stated fails: the data URL of an empty file has an empty payload, which
  \<^verbatim>\<open>fileToBase64\<close> rejects as an invalid file format.
\<close>

theorem empty_file_is_rejected:
  "file_bytes empty_png = []
   \<and> readAsDataURL (stub_env browser_reader client_hangs) empty_png =
        OnLoad ''data:image/png;base64,''
   \<and> fileToBase64 (stub_env browser_reader client_hangs) empty_png =
        Rejected (Error ''Invalid file format'')"
proof -
  let ?e = "stub_env browser_reader client_hangs"
  have 1: "file_bytes empty_png = []" by (simp add: empty_png_def)
  have 2: "readAsDataURL ?e empty_png = OnLoad ''data:image/png;base64,''"
    by (simp add: stub_env_def browser_reader_def data_url_empty_png)
  have 3: "fileToBase64 ?e empty_png = Rejected (Error ''Invalid file format'')"
    by (simp add: fileToBase64_def 2 onload_eval)
  show ?thesis using 1 2 3 by blast
qed

section \<open>Properties of one generation attempt\<close>

lemma both_selected_eq:
  "both_selected (stub_env reader client) =
     \<lparr>childPhoto = Some child_png, adultPhoto = Some adult_jpeg,
      childPhotoPreview = Some ''blob:child.png'', adultPhotoPreview = Some ''blob:adult.jpg'',
      generatedImage = None, isLoading = False, error = None\<rparr>"
  by (simp add: both_selected_def handleInputChange_def handleFileChange_def setChildPhoto_def
      setAdultPhoto_def setChildPhotoPreview_def setAdultPhotoPreview_def initial_state_def
      stub_env_def child_png_def adult_jpeg_def)

lemma both_selected_photos:
  "childPhoto (both_selected (stub_env reader client)) = Some child_png"
  "adultPhoto (both_selected (stub_env reader client)) = Some adult_jpeg"
  by (simp_all add: both_selected_eq)

lemma stub_client: "generateHuggingImage (stub_env reader client) = client"
  by (simp add: stub_env_def)

lemma messages_nonempty: "validation_message \<noteq> []" "failure_message \<noteq> []"
  by (simp_all add: validation_message_def failure_message_def)

lemma messages_differ: "validation_message \<noteq> failure_message"
  by (simp add: validation_message_def failure_message_def)

lemma handleGenerateClick_missing:
  "childPhoto s = None \<or> adultPhoto s = None \<Longrightarrow>
     handleGenerateClick e s = [SetError (Some validation_message)]"
  by (auto simp: handleGenerateClick_def split: option.splits)

lemma handleGenerateClick_both:
  assumes "childPhoto s = Some child" and "adultPhoto s = Some adult"
  shows "handleGenerateClick e s =
     [SetIsLoading True, SetError None, SetGeneratedImage None, CallFileToBase64 child] @
     (case fileToBase64 e child of
        Never_settles \<Rightarrow> []
      | Rejected r \<Rightarrow> catch_finally r
      | Resolved childPhotoData \<Rightarrow>
          CallFileToBase64 adult #
          (case fileToBase64 e adult of
             Never_settles \<Rightarrow> []
           | Rejected r \<Rightarrow> catch_finally r
           | Resolved adultPhotoData \<Rightarrow>
               CallGenerateHuggingImage childPhotoData adultPhotoData #
               (case generateHuggingImage e childPhotoData adultPhotoData of
                  Never_settles \<Rightarrow> []
                | Rejected r \<Rightarrow> catch_finally r
                | Resolved imageUrl \<Rightarrow>
                    [SetGeneratedImage (Some imageUrl), SetIsLoading False])))"
  using assms by (simp add: handleGenerateClick_def)

lemma handleGenerateClick_resolved:
  assumes "childPhoto s = Some child" and "adultPhoto s = Some adult"
    and "fileToBase64 e child = Resolved cd" and "fileToBase64 e adult = Resolved ad"
    and "generateHuggingImage e cd ad = Resolved v"
  shows "handleGenerateClick e s =
     [SetIsLoading True, SetError None, SetGeneratedImage None, CallFileToBase64 child,
      CallFileToBase64 adult, CallGenerateHuggingImage cd ad,
      SetGeneratedImage (Some v), SetIsLoading False]"
  using assms by (simp add: handleGenerateClick_def)

lemma handleGenerateClick_client_rejects:
  assumes "childPhoto s = Some child" and "adultPhoto s = Some adult"
    and "fileToBase64 e child = Resolved cd" and "fileToBase64 e adult = Resolved ad"
    and "generateHuggingImage e cd ad = Rejected r"
  shows "handleGenerateClick e s =
     [SetIsLoading True, SetError None, SetGeneratedImage None, CallFileToBase64 child,
      CallFileToBase64 adult, CallGenerateHuggingImage cd ad,
      ConsoleError r, SetError (Some failure_message), SetIsLoading False]"
  using assms by (simp add: handleGenerateClick_def catch_finally_def)

lemma succeeded_state_eq:
  "succeeded_state =
     \<lparr>childPhoto = Some child_png, adultPhoto = Some adult_jpeg,
      childPhotoPreview = Some ''blob:child.png'', adultPhotoPreview = Some ''blob:adult.jpg'',
      generatedImage = Some ''data:image/png;base64,AAA='', isLoading = False, error = None\<rparr>"
proof -
  let ?e = "stub_env browser_reader (client_resolves stub_reference)"
  have g: "generateHuggingImage ?e x y = Resolved stub_reference" for x y
    by (simp add: stub_client client_resolves_def)
  show ?thesis
    unfolding succeeded_state_def
      handleGenerateClick_resolved[OF both_selected_photos[of browser_reader
          "client_resolves stub_reference"] encode_child_png encode_adult_jpeg g]
    by (simp add: run_def both_selected_eq stub_reference_def)
qed

lemma failed_state_eq:
  "failed_state =
     \<lparr>childPhoto = Some child_png, adultPhoto = Some adult_jpeg,
      childPhotoPreview = Some ''blob:child.png'', adultPhotoPreview = Some ''blob:adult.jpg'',
      generatedImage = None, isLoading = False,
      error = Some ''Failed to generate the image. Please try again.''\<rparr>"
proof -
  let ?e = "stub_env browser_reader client_rejects"
  have g: "generateHuggingImage ?e x y = Rejected ServiceFailure" for x y
    by (simp add: stub_client client_rejects_def)
  show ?thesis
    unfolding failed_state_def
      handleGenerateClick_client_rejects[OF both_selected_photos[of browser_reader client_rejects]
        encode_child_png encode_adult_jpeg g]
    by (simp add: run_def both_selected_eq failure_message_def)
qed

text \<open>
  Claim C1. When the child's photo or the adult's photo is missing, the only effect of
  \<^verbatim>\<open>handleGenerateClick\<close> is to set the validation message, which is not empty: the
  handler returns in the same task with nothing left to run, it calls neither
  \<^verbatim>\<open>fileToBase64\<close> nor \<^verbatim>\<open>generateHuggingImage\<close>, and it never sets the loading flag.
\<close>

theorem missing_photo_yields_validation_error:
  assumes "childPhoto s = None \<or> adultPhoto s = None"
  shows "handleGenerateClick e s = [SetError (Some validation_message)]
         \<and> until_await (handleGenerateClick e s) s = (s\<lparr>error := Some validation_message\<rparr>, [])
         \<and> run (handleGenerateClick e s) s = s\<lparr>error := Some validation_message\<rparr>
         \<and> validation_message \<noteq> []
         \<and> isLoading (run (handleGenerateClick e s) s) = isLoading s
         \<and> (\<forall>a\<in>set (handleGenerateClick e s). \<not> is_call a \<and> a \<noteq> SetIsLoading True)"
  by (simp add: handleGenerateClick_missing[OF assms] run_def messages_nonempty)

theorem missing_photo_yields_validation_error_witness:
  "(childPhoto initial_state = None \<or> adultPhoto initial_state = None)
   \<and> handleGenerateClick (stub_env browser_reader client_hangs) initial_state =
        [SetError (Some ''Please upload both photos before generating.'')]
   \<and> render (run (handleGenerateClick (stub_env browser_reader client_hangs) initial_state) initial_state) =
        [ErrorText ''Please upload both photos before generating.'']"
proof -
  have h: "childPhoto initial_state = None \<or> adultPhoto initial_state = None"
    by (simp add: initial_state_def)
  from missing_photo_yields_validation_error[OF h, of "stub_env browser_reader client_hangs"]
  have t: "handleGenerateClick (stub_env browser_reader client_hangs) initial_state =
             [SetError (Some validation_message)]"
    by (rule conjunct1)
  have r: "render (run [SetError (Some validation_message)] initial_state) =
             [ErrorText validation_message]"
    by (simp add: run_def render_def initial_state_def validation_message_def)
  show ?thesis
    unfolding t r using h by (simp add: validation_message_def)
qed

text \<open>
  Claim C2, as amended. With both photos selected, both encodings resolved and the
  generation service resolved with \<open>v\<close>, the handler reads the child's photo, then the
  adult's, then calls the service, and ends with the loading flag cleared, no error and
  the generated image set to \<open>v\<close>. The panel shows the image with reference \<open>v\<close> when \<open>v\<close>
  is not empty, and the placeholder when \<open>v\<close> is the empty string.
\<close>

theorem generation_succeeds:
  assumes "childPhoto s = Some child" and "adultPhoto s = Some adult"
    and "fileToBase64 e child = Resolved cd" and "fileToBase64 e adult = Resolved ad"
    and "generateHuggingImage e cd ad = Resolved v"
  shows "handleGenerateClick e s =
           [SetIsLoading True, SetError None, SetGeneratedImage None, CallFileToBase64 child,
            CallFileToBase64 adult, CallGenerateHuggingImage cd ad,
            SetGeneratedImage (Some v), SetIsLoading False]
         \<and> run (handleGenerateClick e s) s =
             s\<lparr>generatedImage := Some v, isLoading := False, error := None\<rparr>
         \<and> render (run (handleGenerateClick e s) s) =
             (if v = [] then [Placeholder] else [GeneratedImage v])"
  unfolding handleGenerateClick_resolved[OF assms]
  by (simp add: run_def render_def)

theorem generation_succeeds_witness:
  "childPhoto (both_selected (stub_env browser_reader (client_resolves stub_reference))) = Some child_png
   \<and> adultPhoto (both_selected (stub_env browser_reader (client_resolves stub_reference))) = Some adult_jpeg
   \<and> fileToBase64 (stub_env browser_reader (client_resolves stub_reference)) child_png =
        Resolved \<lparr>mimeType = ''image/png'', data = ''iVBORw0KGgoAAA==''\<rparr>
   \<and> fileToBase64 (stub_env browser_reader (client_resolves stub_reference)) adult_jpeg =
        Resolved \<lparr>mimeType = ''image/jpeg'', data = ''/9j/4AAQSkZJRg==''\<rparr>
   \<and> generateHuggingImage (stub_env browser_reader (client_resolves stub_reference))
        \<lparr>mimeType = ''image/png'', data = ''iVBORw0KGgoAAA==''\<rparr>
        \<lparr>mimeType = ''image/jpeg'', data = ''/9j/4AAQSkZJRg==''\<rparr> =
        Resolved ''data:image/png;base64,AAA=''
   \<and> render succeeded_state = [GeneratedImage ''data:image/png;base64,AAA='']"
proof -
  let ?e = "stub_env browser_reader (client_resolves stub_reference)"
  have g: "generateHuggingImage ?e \<lparr>mimeType = ''image/png'', data = ''iVBORw0KGgoAAA==''\<rparr>
        \<lparr>mimeType = ''image/jpeg'', data = ''/9j/4AAQSkZJRg==''\<rparr> = Resolved stub_reference"
    by (simp add: stub_client client_resolves_def)
  from generation_succeeds[OF both_selected_photos[of browser_reader "client_resolves stub_reference"]
      encode_child_png encode_adult_jpeg g]
  have "render (run (handleGenerateClick ?e (both_selected ?e)) (both_selected ?e)) =
          (if stub_reference = [] then [Placeholder] else [GeneratedImage stub_reference])"
    by blast
  then have r: "render succeeded_state = [GeneratedImage ''data:image/png;base64,AAA='']"
    unfolding succeeded_state_def by (simp add: stub_reference_def)
  show ?thesis
    using both_selected_photos[of browser_reader "client_resolves stub_reference"]
      encode_child_png[of "client_resolves stub_reference"]
      encode_adult_jpeg[of "client_resolves stub_reference"] g r
    by (simp add: stub_reference_def)
qed

text \<open>
  Claim C2 as stated fails: when the service resolves with the empty string, the state
  holds it as the generated image, but the panel shows the placeholder and no image.
\<close>

theorem empty_reference_is_not_displayed:
  "childPhoto (both_selected (stub_env browser_reader (client_resolves []))) = Some child_png
   \<and> adultPhoto (both_selected (stub_env browser_reader (client_resolves []))) = Some adult_jpeg
   \<and> fileToBase64 (stub_env browser_reader (client_resolves [])) child_png =
        Resolved \<lparr>mimeType = ''image/png'', data = ''iVBORw0KGgoAAA==''\<rparr>
   \<and> fileToBase64 (stub_env browser_reader (client_resolves [])) adult_jpeg =
        Resolved \<lparr>mimeType = ''image/jpeg'', data = ''/9j/4AAQSkZJRg==''\<rparr>
   \<and> generateHuggingImage (stub_env browser_reader (client_resolves []))
        \<lparr>mimeType = ''image/png'', data = ''iVBORw0KGgoAAA==''\<rparr>
        \<lparr>mimeType = ''image/jpeg'', data = ''/9j/4AAQSkZJRg==''\<rparr> = Resolved []
   \<and> generatedImage (run (handleGenerateClick (stub_env browser_reader (client_resolves []))
          (both_selected (stub_env browser_reader (client_resolves []))))
          (both_selected (stub_env browser_reader (client_resolves [])))) = Some []
   \<and> render (run (handleGenerateClick (stub_env browser_reader (client_resolves []))
          (both_selected (stub_env browser_reader (client_resolves []))))
          (both_selected (stub_env browser_reader (client_resolves [])))) = [Placeholder]"
proof -
  let ?e = "stub_env browser_reader (client_resolves [])"
  have c: "childPhoto (both_selected ?e) = Some child_png"
    and a: "adultPhoto (both_selected ?e) = Some adult_jpeg"
    by (simp_all add: both_selected_eq)
  have g: "generateHuggingImage ?e x y = Resolved []" for x y
    by (simp add: stub_env_def client_resolves_def)
  show ?thesis
    unfolding handleGenerateClick_resolved[OF c a encode_child_png encode_adult_jpeg g]
    by (simp add: c a encode_child_png encode_adult_jpeg g run_def render_def both_selected_eq)
qed

text \<open>
  Claim C3. With both photos selected and both encodings resolved, when the generation
  service rejects, the handler ends with the failure message as the error, which is not
  empty and is what the panel shows, with no generated image, and with the loading flag
  cleared, so that the button is enabled again.
\<close>

theorem generation_fails_when_client_rejects:
  assumes "childPhoto s = Some child" and "adultPhoto s = Some adult"
    and "fileToBase64 e child = Resolved cd" and "fileToBase64 e adult = Resolved ad"
    and "generateHuggingImage e cd ad = Rejected r"
  shows "handleGenerateClick e s =
           [SetIsLoading True, SetError None, SetGeneratedImage None, CallFileToBase64 child,
            CallFileToBase64 adult, CallGenerateHuggingImage cd ad,
            ConsoleError r, SetError (Some failure_message), SetIsLoading False]
         \<and> run (handleGenerateClick e s) s =
             s\<lparr>generatedImage := None, error := Some failure_message, isLoading := False\<rparr>
         \<and> failure_message \<noteq> []
         \<and> render (run (handleGenerateClick e s) s) = [ErrorText failure_message]
         \<and> \<not> button_disabled (run (handleGenerateClick e s) s)"
  unfolding handleGenerateClick_client_rejects[OF assms]
  using assms(1,2) by (simp add: run_def render_def button_disabled_def messages_nonempty)

theorem generation_fails_when_client_rejects_witness:
  "childPhoto (both_selected (stub_env browser_reader client_rejects)) = Some child_png
   \<and> adultPhoto (both_selected (stub_env browser_reader client_rejects)) = Some adult_jpeg
   \<and> fileToBase64 (stub_env browser_reader client_rejects) child_png =
        Resolved \<lparr>mimeType = ''image/png'', data = ''iVBORw0KGgoAAA==''\<rparr>
   \<and> fileToBase64 (stub_env browser_reader client_rejects) adult_jpeg =
        Resolved \<lparr>mimeType = ''image/jpeg'', data = ''/9j/4AAQSkZJRg==''\<rparr>
   \<and> generateHuggingImage (stub_env browser_reader client_rejects)
        \<lparr>mimeType = ''image/png'', data = ''iVBORw0KGgoAAA==''\<rparr>
        \<lparr>mimeType = ''image/jpeg'', data = ''/9j/4AAQSkZJRg==''\<rparr> = Rejected ServiceFailure
   \<and> render failed_state = [ErrorText ''Failed to generate the image. Please try again.'']
   \<and> generatedImage failed_state = None
   \<and> \<not> button_disabled failed_state"
proof -
  let ?e = "stub_env browser_reader client_rejects"
  have g: "generateHuggingImage ?e \<lparr>mimeType = ''image/png'', data = ''iVBORw0KGgoAAA==''\<rparr>
        \<lparr>mimeType = ''image/jpeg'', data = ''/9j/4AAQSkZJRg==''\<rparr> = Rejected ServiceFailure"
    by (simp add: stub_client client_rejects_def)
  note t = generation_fails_when_client_rejects[OF both_selected_photos[of browser_reader client_rejects]
      encode_child_png encode_adult_jpeg g]
  from t have "render (run (handleGenerateClick ?e (both_selected ?e)) (both_selected ?e)) =
      [ErrorText failure_message]"
    by blast
  then have 1: "render failed_state = [ErrorText ''Failed to generate the image. Please try again.'']"
    unfolding failed_state_def by (simp add: failure_message_def)
  from t have "\<not> button_disabled (run (handleGenerateClick ?e (both_selected ?e)) (both_selected ?e))"
    by blast
  then have 2: "\<not> button_disabled failed_state"
    unfolding failed_state_def .
  from t have "run (handleGenerateClick ?e (both_selected ?e)) (both_selected ?e) = (both_selected ?e)
      \<lparr>generatedImage := None, error := Some failure_message, isLoading := False\<rparr>"
    by blast
  then have 3: "generatedImage failed_state = None"
    unfolding failed_state_def by simp
  show ?thesis
    using both_selected_photos[of browser_reader client_rejects] encode_child_png[of client_rejects]
      encode_adult_jpeg[of client_rejects] g 1 2 3
    by simp
qed

text \<open>
  Claim C8. With both photos selected, \<^verbatim>\<open>generateHuggingImage\<close> is called exactly when
  both encodings resolved, with their two results; the call then stands after the calls
  of \<^verbatim>\<open>fileToBase64\<close> for the child's and for the adult's photo. When an encoding fails,
  the service is not called and the attempt ends with the failure message, no generated
  image and the loading flag cleared.
\<close>

theorem request_only_after_both_encodings:
  assumes "childPhoto s = Some child" and "adultPhoto s = Some adult"
  shows "(\<forall>cd ad. CallGenerateHuggingImage cd ad \<in> set (handleGenerateClick e s) \<longleftrightarrow>
            fileToBase64 e child = Resolved cd \<and> fileToBase64 e adult = Resolved ad)
         \<and> (\<forall>cd ad. CallGenerateHuggingImage cd ad \<in> set (handleGenerateClick e s) \<longrightarrow>
              take 6 (handleGenerateClick e s) =
                [SetIsLoading True, SetError None, SetGeneratedImage None,
                 CallFileToBase64 child, CallFileToBase64 adult,
                 CallGenerateHuggingImage cd ad])
         \<and> (an_encoding_fails e child adult \<longrightarrow>
              (\<forall>cd ad. CallGenerateHuggingImage cd ad \<notin> set (handleGenerateClick e s)) \<and>
              run (handleGenerateClick e s) s =
                s\<lparr>generatedImage := None, error := Some failure_message, isLoading := False\<rparr>)"
  unfolding handleGenerateClick_both[OF assms] an_encoding_fails_def
  by (auto simp: catch_finally_def run_def split: promise.splits)

lemma child_png_neq_adult_jpeg: "child_png \<noteq> adult_jpeg"
  by (simp add: child_png_def adult_jpeg_def)

theorem request_only_after_both_encodings_witness:
  "childPhoto (both_selected (stub_env adult_unreadable (client_resolves stub_reference))) =
     Some child_png
   \<and> adultPhoto (both_selected (stub_env adult_unreadable (client_resolves stub_reference))) =
     Some adult_jpeg
   \<and> an_encoding_fails (stub_env adult_unreadable (client_resolves stub_reference))
        child_png adult_jpeg
   \<and> (\<forall>cd ad. CallGenerateHuggingImage cd ad \<notin>
          set (handleGenerateClick (stub_env adult_unreadable (client_resolves stub_reference))
                 (both_selected (stub_env adult_unreadable (client_resolves stub_reference)))))
   \<and> error (run (handleGenerateClick (stub_env adult_unreadable (client_resolves stub_reference))
                 (both_selected (stub_env adult_unreadable (client_resolves stub_reference))))
               (both_selected (stub_env adult_unreadable (client_resolves stub_reference)))) =
       Some ''Failed to generate the image. Please try again.''
   \<and> childPhoto (both_selected (stub_env browser_reader (client_resolves stub_reference))) =
     Some child_png
   \<and> adultPhoto (both_selected (stub_env browser_reader (client_resolves stub_reference))) =
     Some adult_jpeg
   \<and> CallGenerateHuggingImage \<lparr>mimeType = ''image/png'', data = ''iVBORw0KGgoAAA==''\<rparr>
         \<lparr>mimeType = ''image/jpeg'', data = ''/9j/4AAQSkZJRg==''\<rparr> \<in>
       set (handleGenerateClick (stub_env browser_reader (client_resolves stub_reference))
              (both_selected (stub_env browser_reader (client_resolves stub_reference))))
   \<and> take 6 (handleGenerateClick (stub_env browser_reader (client_resolves stub_reference))
              (both_selected (stub_env browser_reader (client_resolves stub_reference)))) =
       [SetIsLoading True, SetError None, SetGeneratedImage None,
        CallFileToBase64 child_png, CallFileToBase64 adult_jpeg,
        CallGenerateHuggingImage \<lparr>mimeType = ''image/png'', data = ''iVBORw0KGgoAAA==''\<rparr>
          \<lparr>mimeType = ''image/jpeg'', data = ''/9j/4AAQSkZJRg==''\<rparr>]"
proof -
  let ?e = "stub_env adult_unreadable (client_resolves stub_reference)"
  let ?e2 = "stub_env browser_reader (client_resolves stub_reference)"
  let ?png = "\<lparr>mimeType = ''image/png'', data = ''iVBORw0KGgoAAA==''\<rparr>"
  let ?jpeg = "\<lparr>mimeType = ''image/jpeg'', data = ''/9j/4AAQSkZJRg==''\<rparr>"
  have c: "childPhoto (both_selected ?e) = Some child_png"
    and a: "adultPhoto (both_selected ?e) = Some adult_jpeg"
    by (rule both_selected_photos)+
  have fc: "fileToBase64 ?e child_png = Resolved ?png"
    by (simp add: fileToBase64_def stub_env_def adult_unreadable_def child_png_neq_adult_jpeg
        browser_reader_def data_url_child_png onload_eval)
  have fa: "fileToBase64 ?e adult_jpeg = Rejected ErrorEvent"
    by (simp add: fileToBase64_def stub_env_def adult_unreadable_def)
  have f: "an_encoding_fails ?e child_png adult_jpeg"
    by (simp add: an_encoding_fails_def fc fa)
  note t = request_only_after_both_encodings[OF c a, of ?e]
  from t f have 1: "\<forall>cd ad. CallGenerateHuggingImage cd ad \<notin>
      set (handleGenerateClick ?e (both_selected ?e))"
    by blast
  from t f have "run (handleGenerateClick ?e (both_selected ?e)) (both_selected ?e) =
      (both_selected ?e)\<lparr>generatedImage := None, error := Some failure_message,
        isLoading := False\<rparr>"
    by blast
  then have 2: "error (run (handleGenerateClick ?e (both_selected ?e)) (both_selected ?e)) =
      Some ''Failed to generate the image. Please try again.''"
    by (simp add: failure_message_def)
  have c2: "childPhoto (both_selected ?e2) = Some child_png"
    and a2: "adultPhoto (both_selected ?e2) = Some adult_jpeg"
    by (rule both_selected_photos)+
  note t2 = request_only_after_both_encodings[OF c2 a2, of ?e2]
  from t2 have 3: "CallGenerateHuggingImage ?png ?jpeg \<in>
      set (handleGenerateClick ?e2 (both_selected ?e2))"
    using encode_child_png[of "client_resolves stub_reference"]
      encode_adult_jpeg[of "client_resolves stub_reference"] by blast
  from t2 3 have 4: "take 6 (handleGenerateClick ?e2 (both_selected ?e2)) =
       [SetIsLoading True, SetError None, SetGeneratedImage None,
        CallFileToBase64 child_png, CallFileToBase64 adult_jpeg,
        CallGenerateHuggingImage ?png ?jpeg]"
    by blast
  show ?thesis using c a f 1 2 c2 a2 3 4 by blast
qed

section \<open>Properties of file selection\<close>

text \<open>
  Claim C7, as amended. Selecting a file replaces the photo and the preview of its own
  input and nothing else: the generated image, the error and the loading flag stay as
  they are, and the panel shows what it showed before.
\<close>

theorem file_selection_keeps_result_and_error:
  "handleFileChange e setChildPhoto setChildPhotoPreview file s =
      s\<lparr>childPhoto := Some file, childPhotoPreview := Some (createObjectURL e file)\<rparr>
   \<and> handleFileChange e setAdultPhoto setAdultPhotoPreview file s =
      s\<lparr>adultPhoto := Some file, adultPhotoPreview := Some (createObjectURL e file)\<rparr>
   \<and> render (handleFileChange e setChildPhoto setChildPhotoPreview file s) = render s
   \<and> render (handleFileChange e setAdultPhoto setAdultPhotoPreview file s) = render s
   \<and> handleInputChange (handleFileChange e setChildPhoto setChildPhotoPreview)
        (Some (file # files)) s =
      s\<lparr>childPhoto := Some file, childPhotoPreview := Some (createObjectURL e file)\<rparr>
   \<and> handleInputChange (handleFileChange e setAdultPhoto setAdultPhotoPreview)
        (Some (file # files)) s =
      s\<lparr>adultPhoto := Some file, adultPhotoPreview := Some (createObjectURL e file)\<rparr>"
  by (simp add: handleFileChange_def handleInputChange_def setChildPhoto_def setAdultPhoto_def
      setChildPhotoPreview_def setAdultPhotoPreview_def render_def)

text \<open>
  Claim C7 as stated fails: after a successful attempt a new selection leaves the
  generated image displayed, and after a failed attempt it leaves the error displayed.
\<close>

theorem result_and_error_survive_selection:
  "generatedImage succeeded_state = Some ''data:image/png;base64,AAA=''
   \<and> generatedImage (handleFileChange (stub_env browser_reader client_hangs) setChildPhoto
        setChildPhotoPreview adult_jpeg succeeded_state) = Some ''data:image/png;base64,AAA=''
   \<and> render (handleFileChange (stub_env browser_reader client_hangs) setChildPhoto
        setChildPhotoPreview adult_jpeg succeeded_state) =
        [GeneratedImage ''data:image/png;base64,AAA='']
   \<and> childPhotoPreview (handleFileChange (stub_env browser_reader client_hangs) setChildPhoto
        setChildPhotoPreview adult_jpeg succeeded_state) = Some ''blob:adult.jpg''
   \<and> error failed_state = Some ''Failed to generate the image. Please try again.''
   \<and> error (handleFileChange (stub_env browser_reader client_hangs) setAdultPhoto
        setAdultPhotoPreview child_png failed_state) =
        Some ''Failed to generate the image. Please try again.''
   \<and> render (handleFileChange (stub_env browser_reader client_hangs) setAdultPhoto
        setAdultPhotoPreview child_png failed_state) =
        [ErrorText ''Failed to generate the image. Please try again.'']"
  by (simp add: succeeded_state_eq failed_state_eq handleFileChange_def setChildPhoto_def
      setAdultPhoto_def setChildPhotoPreview_def setAdultPhotoPreview_def render_def
      stub_env_def adult_jpeg_def child_png_def)

section \<open>Properties of every reachable state\<close>

lemma continuation_call: "is_call a \<Longrightarrow> continuation (a # k) \<longleftrightarrow> continuation k"
proof
  assume a: "is_call a" and c: "continuation (a # k)"
  from c a show "continuation k"
    by (cases rule: continuation.cases) (auto simp: catch_finally_def)
next
  assume "is_call a" and "continuation k"
  then show "continuation (a # k)" by (rule continuation.awaiting)
qed

lemma continuation_handleGenerateClick:
  assumes "childPhoto s = Some child" and "adultPhoto s = Some adult"
  shows "\<exists>k. until_await (handleGenerateClick e s) s =
               (s\<lparr>isLoading := True, error := None, generatedImage := None\<rparr>, k)
             \<and> continuation k"
  unfolding handleGenerateClick_both[OF assms]
  by (simp add: continuation_call continuation.finished continuation.failing
      continuation.succeeding split: promise.splits)

lemma until_await_continuation:
  assumes "continuation k" and "k \<noteq> []"
    and "isLoading s" and "error s = None" and "generatedImage s = None"
  shows "\<exists>s' k'. until_await k s = (s', k') \<and> continuation k' \<and>
           (s' = s \<or> k' = [] \<and> \<not> isLoading s' \<and> lifecycle_ok s')"
  using assms
proof (cases rule: continuation.cases)
  case finished
  then show ?thesis using assms(2) by simp
next
  case (failing r)
  then show ?thesis
    using assms(5) by (simp add: catch_finally_def lifecycle_ok_def continuation.finished)
next
  case (succeeding u)
  then show ?thesis
    using assms(4) by (simp add: lifecycle_ok_def continuation.finished)
next
  case (awaiting a k')
  then show ?thesis by simp
qed

lemma lifecycle_ok_selection:
  "lifecycle_ok (handleInputChange (handleFileChange e setChildPhoto setChildPhotoPreview) files s)
     = lifecycle_ok s"
  "lifecycle_ok (handleInputChange (handleFileChange e setAdultPhoto setAdultPhotoPreview) files s)
     = lifecycle_ok s"
  "isLoading (handleInputChange (handleFileChange e setChildPhoto setChildPhotoPreview) files s)
     = isLoading s"
  "isLoading (handleInputChange (handleFileChange e setAdultPhoto setAdultPhotoPreview) files s)
     = isLoading s"
  by (auto simp: handleInputChange_def handleFileChange_def setChildPhoto_def setAdultPhoto_def
      setChildPhotoPreview_def setAdultPhotoPreview_def lifecycle_ok_def
      split: option.splits list.splits)

lemma invariant_step: "invariant sys \<Longrightarrow> invariant (step e ev sys)"
proof (cases ev)
  case (ChildInputChange files)
  assume "invariant sys"
  then show ?thesis
    unfolding ChildInputChange invariant_def by (simp add: lifecycle_ok_selection)
next
  case (AdultInputChange files)
  assume "invariant sys"
  then show ?thesis
    unfolding AdultInputChange invariant_def by (simp add: lifecycle_ok_selection)
next
  case Click
  assume inv: "invariant sys"
  show ?thesis
  proof (cases "button_disabled (ui sys)")
    case True
    then show ?thesis using inv Click by simp
  next
    case False
    then obtain child adult where c: "childPhoto (ui sys) = Some child"
      and a: "adultPhoto (ui sys) = Some adult" and l: "\<not> isLoading (ui sys)"
      by (auto simp: button_disabled_def)
    from inv l have s: "suspended sys = []" by (auto simp: invariant_def)
    from continuation_handleGenerateClick[OF c a, of e] obtain k where
      u: "until_await (handleGenerateClick e (ui sys)) (ui sys) =
            ((ui sys)\<lparr>isLoading := True, error := None, generatedImage := None\<rparr>, k)"
      and k: "continuation k"
      by blast
    show ?thesis
      unfolding Click using False u k s
      by (simp add: invariant_def lifecycle_ok_def park_def)
  qed
next
  case (Settle i)
  assume inv: "invariant sys"
  show ?thesis
  proof (cases "i < length (suspended sys)")
    case False
    then show ?thesis using inv Settle by simp
  next
    case True
    with inv obtain k where s: "suspended sys = [k]" and k: "k \<noteq> []" "continuation k"
      and l: "isLoading (ui sys)" and ok: "lifecycle_ok (ui sys)"
      by (auto simp: invariant_def)
    from True s have i: "i = 0" by simp
    from l ok have n: "error (ui sys) = None" "generatedImage (ui sys) = None"
      by (simp_all add: lifecycle_ok_def)
    from until_await_continuation[OF k(2) k(1) l n] obtain s' k' where
      u: "until_await k (ui sys) = (s', k')" and k': "continuation k'"
      and d: "s' = ui sys \<or> k' = [] \<and> \<not> isLoading s' \<and> lifecycle_ok s'"
      by blast
    show ?thesis
      unfolding Settle using s i u k' d l ok
      by (auto simp: invariant_def park_def)
  qed
qed

lemma invariant_initial: "invariant initial_system"
  by (simp add: invariant_def initial_system_def initial_state_def lifecycle_ok_def)

lemma reachable_invariant: "reachable sys \<Longrightarrow> invariant sys"
  by (induction rule: reachable.induct) (simp_all add: invariant_initial invariant_step)

lemma reachable_steps: "reachable sys \<Longrightarrow> reachable (steps evs sys)"
  by (induction evs sys rule: steps.induct) (simp_all add: reachable_step)

lemma render_lifecycle_ok:
  "lifecycle_ok s \<Longrightarrow>
     render s =
       (if isLoading s then [LoadingSpinner]
        else case error s of
               Some m \<Rightarrow> [ErrorText m]
             | None \<Rightarrow>
                 (case generatedImage s of
                    Some u \<Rightarrow> if u = [] then [Placeholder] else [GeneratedImage u]
                  | None \<Rightarrow> [Placeholder]))"
  using messages_nonempty(2)
  by (auto simp: lifecycle_ok_def render_def split: option.splits)

lemma ui_select_both:
  "steps select_both initial_system =
     \<lparr>ui = both_selected (stub_env browser_reader (client_resolves stub_reference)),
      suspended = []\<rparr>"
  by (simp add: select_both_def both_selected_def initial_system_def)

lemma ui_select_both_and_click:
  "steps select_both_and_click initial_system =
     \<lparr>ui = (both_selected (stub_env browser_reader (client_resolves stub_reference)))
             \<lparr>isLoading := True\<rparr>,
      suspended =
        [[CallFileToBase64 adult_jpeg,
          CallGenerateHuggingImage \<lparr>mimeType = ''image/png'', data = ''iVBORw0KGgoAAA==''\<rparr>
            \<lparr>mimeType = ''image/jpeg'', data = ''/9j/4AAQSkZJRg==''\<rparr>,
          SetGeneratedImage (Some stub_reference), SetIsLoading False]]\<rparr>"
proof -
  let ?e = "stub_env browser_reader (client_resolves stub_reference)"
  have g: "generateHuggingImage ?e x y = Resolved stub_reference" for x y
    by (simp add: stub_client client_resolves_def)
  have s: "steps [(?e, ChildInputChange (Some [child_png])), (?e, AdultInputChange (Some [adult_jpeg]))]
             initial_system = \<lparr>ui = both_selected ?e, suspended = []\<rparr>"
    by (simp add: both_selected_def initial_system_def)
  have d: "\<not> button_disabled (both_selected ?e)"
    by (simp add: button_disabled_def both_selected_eq)
  have k: "until_await (handleGenerateClick ?e (both_selected ?e)) (both_selected ?e) =
      ((both_selected ?e)\<lparr>isLoading := True\<rparr>,
       [CallFileToBase64 adult_jpeg,
          CallGenerateHuggingImage \<lparr>mimeType = ''image/png'', data = ''iVBORw0KGgoAAA==''\<rparr>
            \<lparr>mimeType = ''image/jpeg'', data = ''/9j/4AAQSkZJRg==''\<rparr>,
          SetGeneratedImage (Some stub_reference), SetIsLoading False])"
    unfolding handleGenerateClick_resolved[OF both_selected_photos[of browser_reader
          "client_resolves stub_reference"] encode_child_png encode_adult_jpeg g]
    by (simp add: both_selected_eq)
  have "steps select_both_and_click initial_system =
      step ?e Click \<lparr>ui = both_selected ?e, suspended = []\<rparr>"
    using s by (simp add: select_both_and_click_def)
  then show ?thesis using d k by (simp add: park_def)
qed

lemma ui_settle_three:
  "ui (steps (select_both_and_click @ settle_three) initial_system) = succeeded_state"
proof -
  have a: "steps (xs @ ys) sys = steps ys (steps xs sys)" for xs ys sys
    by (induction xs sys rule: steps.induct) simp_all
  show ?thesis
    unfolding a ui_select_both_and_click
    by (simp add: settle_three_def park_def succeeded_state_eq both_selected_eq stub_reference_def)
qed

text \<open>
  Claim C9. In every state that file selections, clicks on the button and settling
  promises can reach (a state between two tasks of the event loop), the loading flag,
  the error and the generated image exclude one another, and the panel shows exactly
  one block: the spinner while loading, else the error, else the generated image, else
  the placeholder. A click on the enabled button sets the loading flag and clears the
  error and the generated image in one task, so nothing of an earlier attempt is left
  when the new one is pending.
\<close>

theorem exactly_one_lifecycle_state:
  assumes "reachable sys"
  shows "\<not> (isLoading (ui sys) \<and> error (ui sys) \<noteq> None)
         \<and> \<not> (isLoading (ui sys) \<and> generatedImage (ui sys) \<noteq> None)
         \<and> \<not> (error (ui sys) \<noteq> None \<and> generatedImage (ui sys) \<noteq> None)
         \<and> render (ui sys) =
             (if isLoading (ui sys) then [LoadingSpinner]
              else case error (ui sys) of
                     Some m \<Rightarrow> [ErrorText m]
                   | None \<Rightarrow>
                       (case generatedImage (ui sys) of
                          Some u \<Rightarrow> if u = [] then [Placeholder] else [GeneratedImage u]
                        | None \<Rightarrow> [Placeholder]))
         \<and> (\<not> button_disabled (ui sys) \<longrightarrow>
              isLoading (ui (step e Click sys)) \<and> error (ui (step e Click sys)) = None \<and>
              generatedImage (ui (step e Click sys)) = None)"
proof -
  from reachable_invariant[OF assms] have ok: "lifecycle_ok (ui sys)"
    by (simp add: invariant_def)
  have click: "isLoading (ui (step e Click sys)) \<and> error (ui (step e Click sys)) = None \<and>
      generatedImage (ui (step e Click sys)) = None" if "\<not> button_disabled (ui sys)"
  proof -
    from that obtain child adult where c: "childPhoto (ui sys) = Some child"
      and a: "adultPhoto (ui sys) = Some adult"
      by (auto simp: button_disabled_def)
    from continuation_handleGenerateClick[OF c a, of e] that show ?thesis by auto
  qed
  from ok have "\<not> (isLoading (ui sys) \<and> error (ui sys) \<noteq> None)"
    "\<not> (isLoading (ui sys) \<and> generatedImage (ui sys) \<noteq> None)"
    "\<not> (error (ui sys) \<noteq> None \<and> generatedImage (ui sys) \<noteq> None)"
    by (auto simp: lifecycle_ok_def)
  then show ?thesis using render_lifecycle_ok[OF ok] click by blast
qed

theorem exactly_one_lifecycle_state_witness:
  "reachable (steps select_both initial_system)
   \<and> render (ui (steps select_both initial_system)) = [Placeholder]
   \<and> \<not> button_disabled (ui (steps select_both initial_system))
   \<and> isLoading (ui (step (stub_env browser_reader client_rejects) Click (steps select_both initial_system)))
   \<and> error (ui (step (stub_env browser_reader client_rejects) Click (steps select_both initial_system)))
       = None
   \<and> reachable (steps select_both_and_click initial_system)
   \<and> render (ui (steps select_both_and_click initial_system)) = [LoadingSpinner]
   \<and> reachable (steps (select_both_and_click @ settle_three) initial_system)
   \<and> render (ui (steps (select_both_and_click @ settle_three) initial_system)) =
        [GeneratedImage ''data:image/png;base64,AAA='']"
proof -
  have r0: "reachable (steps select_both initial_system)"
    and r1: "reachable (steps select_both_and_click initial_system)"
    and r2: "reachable (steps (select_both_and_click @ settle_three) initial_system)"
    by (rule reachable_steps[OF reachable_init])+
  have d: "\<not> button_disabled (ui (steps select_both initial_system))"
    unfolding ui_select_both by (simp add: button_disabled_def both_selected_eq)
  note t0 = exactly_one_lifecycle_state[OF r0, of "stub_env browser_reader client_rejects"]
  from t0 have 0: "render (ui (steps select_both initial_system)) = [Placeholder]"
    unfolding ui_select_both by (simp add: both_selected_eq)
  from t0 d have c: "isLoading (ui (step (stub_env browser_reader client_rejects) Click
        (steps select_both initial_system)))"
    "error (ui (step (stub_env browser_reader client_rejects) Click
        (steps select_both initial_system))) = None"
    by blast+
  from exactly_one_lifecycle_state[OF r1]
  have 1: "render (ui (steps select_both_and_click initial_system)) = [LoadingSpinner]"
    unfolding ui_select_both_and_click by simp
  from exactly_one_lifecycle_state[OF r2]
  have 2: "render (ui (steps (select_both_and_click @ settle_three) initial_system)) =
        [GeneratedImage ''data:image/png;base64,AAA='']"
    unfolding ui_settle_three by (simp add: succeeded_state_eq)
  show ?thesis using r0 0 d c r1 1 r2 2 by blast
qed

lemma perform_photos:
  "childPhoto (perform a s) = childPhoto s" "adultPhoto (perform a s) = adultPhoto s"
  by (cases a; simp)+

lemma until_await_photos:
  "childPhoto (fst (until_await k s)) = childPhoto s"
  "adultPhoto (fst (until_await k s)) = adultPhoto s"
  by (induction k arbitrary: s; simp add: perform_photos)+

lemma step_keeps_photos:
  "childPhoto (ui sys) \<noteq> None \<Longrightarrow> childPhoto (ui (step e ev sys)) \<noteq> None"
  "adultPhoto (ui sys) \<noteq> None \<Longrightarrow> adultPhoto (ui (step e ev sys)) \<noteq> None"
proof -
  have u: "childPhoto s' = childPhoto s \<and> adultPhoto s' = adultPhoto s"
    if "until_await k s = (s', k')" for k s s' k'
    using until_await_photos[of k s] that by simp
  show "childPhoto (ui sys) \<noteq> None \<Longrightarrow> childPhoto (ui (step e ev sys)) \<noteq> None"
    by (cases ev)
      (auto simp: handleInputChange_def handleFileChange_def setChildPhoto_def setAdultPhoto_def
        setChildPhotoPreview_def setAdultPhotoPreview_def dest: u
        split: option.splits list.splits prod.splits)
  show "adultPhoto (ui sys) \<noteq> None \<Longrightarrow> adultPhoto (ui (step e ev sys)) \<noteq> None"
    by (cases ev)
      (auto simp: handleInputChange_def handleFileChange_def setChildPhoto_def setAdultPhoto_def
        setChildPhotoPreview_def setAdultPhotoPreview_def dest: u
        split: option.splits list.splits prod.splits)
qed

lemma steps_keep_childPhoto:
  "childPhoto (ui sys) \<noteq> None \<Longrightarrow> childPhoto (ui (steps evs sys)) \<noteq> None"
  by (induction evs sys rule: steps.induct) (simp_all add: step_keeps_photos(1))

lemma steps_keep_adultPhoto:
  "adultPhoto (ui sys) \<noteq> None \<Longrightarrow> adultPhoto (ui (steps evs sys)) \<noteq> None"
  by (induction evs sys rule: steps.induct) (simp_all add: step_keeps_photos(2))

lemma no_validation_when_both:
  assumes "childPhoto s \<noteq> None" and "adultPhoto s \<noteq> None"
  shows "SetError (Some validation_message) \<notin> set (handleGenerateClick e s)"
proof -
  from assms obtain child adult where c: "childPhoto s = Some child"
    and a: "adultPhoto s = Some adult" by auto
  show ?thesis
    unfolding handleGenerateClick_both[OF c a]
    by (auto simp: catch_finally_def messages_differ split: promise.splits)
qed

text \<open>
  Claim C10. No sequence of events clears a selected photo: a photo that is present
  stays present, a change event without a file changes nothing, and once both photos
  are present the generation trigger never sets the validation message again.
\<close>

theorem selection_is_never_cleared:
  "(childPhoto (ui sys) \<noteq> None \<longrightarrow> childPhoto (ui (steps evs sys)) \<noteq> None)
   \<and> (adultPhoto (ui sys) \<noteq> None \<longrightarrow> adultPhoto (ui (steps evs sys)) \<noteq> None)
   \<and> (childPhoto (ui sys) \<noteq> None \<and> adultPhoto (ui sys) \<noteq> None \<longrightarrow>
        SetError (Some validation_message) \<notin> set (handleGenerateClick e (ui (steps evs sys))))
   \<and> step e (ChildInputChange None) sys = sys \<and> step e (ChildInputChange (Some [])) sys = sys
   \<and> step e (AdultInputChange None) sys = sys \<and> step e (AdultInputChange (Some [])) sys = sys"
  using steps_keep_childPhoto[of sys evs] steps_keep_adultPhoto[of sys evs]
    no_validation_when_both[of "ui (steps evs sys)" e]
  by (simp add: handleInputChange_def)

theorem selection_is_never_cleared_witness:
  "childPhoto (ui (steps select_both_and_click initial_system)) \<noteq> None
   \<and> adultPhoto (ui (steps select_both_and_click initial_system)) \<noteq> None
   \<and> childPhoto (ui (steps settle_three (steps select_both_and_click initial_system))) \<noteq> None
   \<and> adultPhoto (ui (steps settle_three (steps select_both_and_click initial_system))) \<noteq> None
   \<and> SetError (Some validation_message) \<notin>
        set (handleGenerateClick (stub_env browser_reader client_rejects)
               (ui (steps settle_three (steps select_both_and_click initial_system))))"
proof -
  have c: "childPhoto (ui (steps select_both_and_click initial_system)) \<noteq> None"
    and a: "adultPhoto (ui (steps select_both_and_click initial_system)) \<noteq> None"
    unfolding ui_select_both_and_click by (simp_all add: both_selected_eq)
  show ?thesis
    using selection_is_never_cleared[of "steps select_both_and_click initial_system"
        settle_three "stub_env browser_reader client_rejects"] c a
    by blast
qed

end
